theory Spec2Isabelle
  imports Main "HOL-Library.Multiset" "HOL-Library.Sublist"
begin

section \<open>Data model\<close>

text \<open>
  \<open>IUser\<close> of \<^verbatim>\<open>core/models/models.ts\<close> (it extends \<open>HasId\<close> and
  \<open>HasTimestamps\<close>). The field \<^verbatim>\<open>_id\<close> is written \<open>uid\<close>, since a name cannot
  start with an underscore here; a \<^verbatim>\<open>Date\<close> is its number of milliseconds.
\<close>

record IUser =
  uid :: string
  createdAt :: int
  updatedAt :: int
  name :: string
  team :: string
  phone :: string
  email :: string
  joinedAt :: int

text \<open>
  The entries of a \<open>BulkMessageReport\<close>, as the object literals of
  \<^verbatim>\<open>sendToRecipient\<close> and \<^verbatim>\<open>addRecipientsFromGroup\<close> build them. A success is
  \<^verbatim>\<open>{user, name}\<close>; a failure is \<^verbatim>\<open>{recipientGroup, user, name, message}\<close>, where a
  field that is \<^verbatim>\<open>null\<close> or left out is \<open>None\<close>. The fields \<^verbatim>\<open>user\<close> and
  \<^verbatim>\<open>name\<close> carry a prefix to keep them apart from those of \<open>IUser\<close>.
\<close>

record BulkMessageRecipient =
  r_user :: string
  r_name :: string

record BulkMessageError =
  recipientGroup :: "string option"
  e_user :: "string option"
  e_name :: "string option"
  message :: string

record BulkMessageReport =
  errors :: "BulkMessageError list"
  numFailed :: nat
  numRecipients :: nat
  recipients :: "BulkMessageRecipient list"

section \<open>Collaborators\<close>

text \<open>
  The collaborators are interfaces; the service only calls them. Each is a record of
  functions. A call that throws or whose promise rejects returns \<open>Inl\<close> of the error's
  \<^verbatim>\<open>message\<close>. The context type \<open>'c\<close> is the context factory's own.
\<close>

record IRecipientResolver =
  canResolve :: "string \<Rightarrow> bool"
  resolve :: "string \<Rightarrow> string + IUser list"

record 'c IMessageContextFactory =
  createContextFromUser :: "IUser \<Rightarrow> string + 'c"

record 'c IMessageTemplateResolver =
  resolveTemplate :: "'c \<Rightarrow> string \<Rightarrow> string + string"

record IMessageTransport =
  sendMessage :: "IUser \<Rightarrow> string \<Rightarrow> string + unit"

text \<open>
  The calls made on the collaborators are recorded in a trace, so that what a function
  did not call can be stated.
\<close>

datatype 'c call =
    CanResolveCall string
  | ResolveCall string
  | CreateContextCall IUser
  | TemplateResolveCall 'c string
  | SendMessageCall IUser string

fun isSendMessageCall :: "'c call \<Rightarrow> bool" where
  "isSendMessageCall (SendMessageCall u m) = True"
| "isSendMessageCall c = False"

fun isResolveCall :: "'c call \<Rightarrow> bool" where
  "isResolveCall (ResolveCall g) = True"
| "isResolveCall c = False"

fun sentTo :: "string \<Rightarrow> 'c call \<Rightarrow> bool" where
  "sentTo i (SendMessageCall u m) = (uid u = i)"
| "sentTo i c = False"

section \<open>Construction\<close>

text \<open>
  \<open>BulkMessageServiceArgs\<close>: an optional field (and \<^verbatim>\<open>users\<close>, which the constructor
  tests although its type is not optional) is an \<open>option\<close>. \<open>'u\<close> is \<open>IUserService\<close>
  and \<open>'s\<close> is \<open>ISmsService\<close>, which the constructor only hands on.
\<close>

record ('c, 'u, 's) BulkMessageServiceArgs =
  arg_contextFactory :: "'c IMessageContextFactory"
  arg_templateResolver :: "'c IMessageTemplateResolver option"
  arg_transport :: "IMessageTransport option"
  arg_smsService :: "'s option"
  arg_recipientResolver :: "IRecipientResolver option"
  arg_users :: "'u option"

record 'c BulkMessageService =
  recipientResolver :: IRecipientResolver
  contextFactory :: "'c IMessageContextFactory"
  templateResolver :: "'c IMessageTemplateResolver"
  transport :: IMessageTransport

text \<open>
  The classes \<^verbatim>\<open>MessageTemplateResolver\<close>, \<^verbatim>\<open>RecipientResolver\<close> and
  \<^verbatim>\<open>SmsMessageTransport\<close> and the function \<^verbatim>\<open>getPreviewUser\<close> are imported by the
  service from modules that are not among the sources; they are parameters.
\<close>

record ('c, 'u, 's) modules =
  new_MessageTemplateResolver :: "'c IMessageTemplateResolver"
  new_RecipientResolver :: "'u option \<Rightarrow> IRecipientResolver"
  new_SmsMessageTransport :: "'s option \<Rightarrow> IMessageTransport"
  getPreviewUser :: IUser

definition new_BulkMessageService ::
  "('c, 'u, 's) modules \<Rightarrow> ('c, 'u, 's) BulkMessageServiceArgs \<Rightarrow> string + 'c BulkMessageService" where
  "new_BulkMessageService im args =
     (if arg_recipientResolver args = None \<and> arg_users args = None
      then Inl ''Bulk message args must provide either recipientsResolver or users''
      else if arg_transport args = None \<and> arg_smsService args = None
      then Inl ''Bulk message args must provide either transport or smsProvider''
      else Inr \<lparr>
        recipientResolver =
          (case arg_recipientResolver args of
             Some r \<Rightarrow> r
           | None \<Rightarrow> new_RecipientResolver im (arg_users args)),
        contextFactory = arg_contextFactory args,
        templateResolver =
          (case arg_templateResolver args of
             Some t \<Rightarrow> t
           | None \<Rightarrow> new_MessageTemplateResolver im),
        transport =
          (case arg_transport args of
             Some t \<Rightarrow> t
           | None \<Rightarrow> new_SmsMessageTransport im (arg_smsService args)) \<rparr>)"

section \<open>Asynchronous tasks\<close>

text \<open>
  The tasks of one \<^verbatim>\<open>Promise.all\<close>, and the handlers of one queue run, touch the shared
  report and recipient list only in a block with no \<^verbatim>\<open>await\<close> in it, which the
  single-threaded scheduler runs whole. So a task is one step on the state, taken when
  it completes, and a run is the steps in completion order. That order is not fixed by
  the code: it is an input, a schedule. At each step the schedule's next number picks,
  among the tasks still pending (in the order they were started), the one that
  completes; when the schedule is used up the rest complete in the order they were
  started. Every schedule gives a permutation (\<open>mset_completionOrder\<close>) and every
  permutation has a schedule (\<open>completionOrder_complete\<close>). The calls a task makes on
  the collaborators are appended to the trace in that same step, so the trace keeps the
  calls of one task together; the properties below count calls and do not depend on
  their order. A collaborator is a function: what a call returns depends on its
  arguments only.
\<close>

fun completionOrder :: "nat list \<Rightarrow> 'a list \<Rightarrow> 'a list" where
  "completionOrder sched [] = []"
| "completionOrder [] (x # xs) = x # xs"
| "completionOrder (k # ks) (x # xs) =
     (let i = k mod length (x # xs)
      in (x # xs) ! i # completionOrder ks (take i (x # xs) @ drop (Suc i) (x # xs)))"

definition Promise_all :: "nat list \<Rightarrow> ('s \<Rightarrow> 's) list \<Rightarrow> 's \<Rightarrow> 's" where
  "Promise_all sched tasks st = fold (\<lambda>task. task) (completionOrder sched tasks) st"

text \<open>
  Modelled from the spec: the class \<^verbatim>\<open>BatchJobQueue\<close> of \<^verbatim>\<open>util\<close> is not among the
  sources. The spec: \<^verbatim>\<open>run()\<close> drains the queue, invoking the handler for every pushed
  item, and resolves only once all handlers have settled; items are processed
  concurrently, and the completion order across items is unspecified.
\<close>

definition BatchJobQueue_run :: "nat list \<Rightarrow> ('a \<Rightarrow> 's \<Rightarrow> 's) \<Rightarrow> 'a list \<Rightarrow> 's \<Rightarrow> 's" where
  "BatchJobQueue_run sched handler items st = fold handler (completionOrder sched items) st"

section \<open>The service\<close>

text \<open>\<^verbatim>\<open>Array.prototype.join\<close> on strings.\<close>

fun join :: "string \<Rightarrow> string list \<Rightarrow> string" where
  "join sep [] = []"
| "join sep [x] = x"
| "join sep (x # y # ys) = x @ sep @ join sep (y # ys)"

definition createMessageForUser ::
  "'c BulkMessageService \<Rightarrow> IUser \<Rightarrow> string \<Rightarrow> 'c call list \<Rightarrow> (string + string) \<times> 'c call list" where
  "createMessageForUser this user template cs =
     (let cs1 = cs @ [CreateContextCall user] in
      case createContextFromUser (contextFactory this) user of
        Inl e \<Rightarrow> (Inl e, cs1)
      | Inr ctx \<Rightarrow>
          (resolveTemplate (templateResolver this) ctx template,
           cs1 @ [TemplateResolveCall ctx template]))"

definition sendToRecipient ::
  "'c BulkMessageService \<Rightarrow> IUser \<Rightarrow> string \<Rightarrow> BulkMessageReport \<times> 'c call list
     \<Rightarrow> BulkMessageReport \<times> 'c call list" where
  "sendToRecipient this recipient template = (\<lambda>(report, cs).
     case createMessageForUser this recipient template cs of
       (Inl e, cs1) \<Rightarrow>
         (report\<lparr> errors := errors report @
              [\<lparr> recipientGroup = None, e_user = Some (uid recipient),
                 e_name = Some (name recipient), message = e \<rparr>],
            numFailed := numFailed report + 1 \<rparr>, cs1)
     | (Inr msg, cs1) \<Rightarrow>
         (let cs2 = cs1 @ [SendMessageCall recipient msg] in
          case sendMessage (transport this) recipient msg of
            Inl e \<Rightarrow>
              (report\<lparr> errors := errors report @
                   [\<lparr> recipientGroup = None, e_user = Some (uid recipient),
                      e_name = Some (name recipient), message = e \<rparr>],
                 numFailed := numFailed report + 1 \<rparr>, cs2)
          | Inr _ \<Rightarrow>
              (report\<lparr> numRecipients := numRecipients report + 1,
                 recipients := recipients report @
                   [\<lparr> r_user = uid recipient, r_name = name recipient \<rparr>] \<rparr>, cs2)))"

definition sendToRecipients ::
  "'c BulkMessageService \<Rightarrow> nat list \<Rightarrow> IUser list \<Rightarrow> string \<Rightarrow> BulkMessageReport \<times> 'c call list
     \<Rightarrow> BulkMessageReport \<times> 'c call list" where
  "sendToRecipients this qsched rs template st =
     BatchJobQueue_run qsched (\<lambda>recipient. sendToRecipient this recipient template) rs st"

text \<open>
  \<^verbatim>\<open>addRecipientsFromGroup\<close> works on the array \<^verbatim>\<open>allRecipients\<close> and the set
  \<^verbatim>\<open>recipientIds\<close> that all the tasks of one \<^verbatim>\<open>getRecipients\<close> share, and on the
  report; the state is the three of them and the trace.
\<close>

type_synonym 'c groupState = "IUser list \<times> string set \<times> BulkMessageReport \<times> 'c call list"

definition addRecipient :: "IUser \<Rightarrow> IUser list \<times> string set \<Rightarrow> IUser list \<times> string set" where
  "addRecipient r = (\<lambda>(allRecipients, recipientIds).
     if uid r \<notin> recipientIds
     then (allRecipients @ [r], insert (uid r) recipientIds)
     else (allRecipients, recipientIds))"

definition addRecipientsFromGroup ::
  "'c BulkMessageService \<Rightarrow> string \<Rightarrow> 'c groupState \<Rightarrow> 'c groupState" where
  "addRecipientsFromGroup this grp = (\<lambda>(allRecipients, recipientIds, report, cs).
     let cs1 = cs @ [ResolveCall grp] in
     case resolve (recipientResolver this) grp of
       Inr rs \<Rightarrow>
         (case fold addRecipient rs (allRecipients, recipientIds) of
            (allRecipients', recipientIds') \<Rightarrow> (allRecipients', recipientIds', report, cs1))
     | Inl e \<Rightarrow>
         (allRecipients, recipientIds,
          report\<lparr> errors := errors report @
               [\<lparr> recipientGroup = Some grp, e_user = None, e_name = None, message = e \<rparr>],
            numFailed := numFailed report + 1 \<rparr>, cs1))"

definition getRecipients ::
  "'c BulkMessageService \<Rightarrow> nat list \<Rightarrow> string list \<Rightarrow> BulkMessageReport \<times> 'c call list
     \<Rightarrow> IUser list \<times> BulkMessageReport \<times> 'c call list" where
  "getRecipients this gsched recipientGroups = (\<lambda>(report, cs).
     let tasks = map (\<lambda>grp. addRecipientsFromGroup this grp) recipientGroups in
     case Promise_all gsched tasks ([], {}, report, cs) of
       (allRecipients, recipientIds, report', cs') \<Rightarrow> (allRecipients, report', cs'))"

definition send ::
  "'c BulkMessageService \<Rightarrow> nat list \<Rightarrow> nat list \<Rightarrow> string list \<Rightarrow> string \<Rightarrow> 'c call list
     \<Rightarrow> (string + BulkMessageReport) \<times> 'c call list" where
  "send this gsched qsched recipientGroups messageTemplate cs =
     (let invalidGroups = filter (\<lambda>grp. \<not> canResolve (recipientResolver this) grp) recipientGroups;
          cs0 = cs @ map CanResolveCall recipientGroups in
      if length invalidGroups \<noteq> 0
      then (Inl (''Invalid recipients: '' @
                 join '', '' (map (\<lambda>g. [CHR 0x27] @ g @ [CHR 0x27]) invalidGroups)), cs0)
      else
        (let report = \<lparr> errors = [], numFailed = 0, numRecipients = 0, recipients = [] \<rparr> in
         case getRecipients this gsched recipientGroups (report, cs0) of
           (allRecipients, report1, cs1) \<Rightarrow>
             (case sendToRecipients this qsched allRecipients messageTemplate (report1, cs1) of
                (report2, cs2) \<Rightarrow> (Inr report2, cs2))))"

definition previewMessage ::
  "('c, 'u, 's) modules \<Rightarrow> 'c BulkMessageService \<Rightarrow> string \<Rightarrow> 'c call list
     \<Rightarrow> (string + string) \<times> 'c call list" where
  "previewMessage im this messageTemplate cs =
     (let user = getPreviewUser im in
      createMessageForUser this user messageTemplate cs)"

section \<open>Derived notions\<close>

text \<open>
  What follows is not code of the service: these are the notions the properties are
  stated and proved with. \<open>recipientEntry\<close>, \<open>recipientError\<close> and \<open>groupError\<close> are
  the three object literals the service pushes onto the report. \<open>sendOutcome\<close> is what
  the \<^verbatim>\<open>try\<close> block of \<^verbatim>\<open>sendToRecipient\<close> ends in for a user, \<open>recipientCalls\<close> the
  calls it makes on the way, \<open>recordOutcome\<close> its effect on the report. \<open>groupUsers\<close>
  are the users a group resolves to (none when the resolution fails), \<open>resolvedUsers\<close>
  those of a list of groups, one after the other. \<open>firstSeen seen us\<close> keeps of \<open>us\<close>
  the first user of each \<^verbatim>\<open>_id\<close> that is not in \<open>seen\<close>. \<open>attempted\<close> is the recipient
  list that \<^verbatim>\<open>getRecipients\<close> returns, as \<open>attempted_getRecipients\<close> shows.
  \<open>resolveFails\<close> says that the resolution of a group fails, \<open>rendersFor\<close> that
  context creation and rendering succeed for a user.
\<close>

definition sendOutcome :: "'c BulkMessageService \<Rightarrow> string \<Rightarrow> IUser \<Rightarrow> string + unit" where
  "sendOutcome this template u =
     (case createContextFromUser (contextFactory this) u of
        Inl e \<Rightarrow> Inl e
      | Inr c \<Rightarrow>
          (case resolveTemplate (templateResolver this) c template of
             Inl e \<Rightarrow> Inl e
           | Inr m \<Rightarrow> sendMessage (transport this) u m))"

definition recipientCalls :: "'c BulkMessageService \<Rightarrow> string \<Rightarrow> IUser \<Rightarrow> 'c call list" where
  "recipientCalls this template u =
     (case createContextFromUser (contextFactory this) u of
        Inl e \<Rightarrow> [CreateContextCall u]
      | Inr c \<Rightarrow>
          (case resolveTemplate (templateResolver this) c template of
             Inl e \<Rightarrow> [CreateContextCall u, TemplateResolveCall c template]
           | Inr m \<Rightarrow> [CreateContextCall u, TemplateResolveCall c template, SendMessageCall u m]))"

definition recipientEntry :: "IUser \<Rightarrow> BulkMessageRecipient" where
  "recipientEntry u = \<lparr> r_user = uid u, r_name = name u \<rparr>"

definition recipientError :: "IUser \<Rightarrow> string \<Rightarrow> BulkMessageError" where
  "recipientError u e =
     \<lparr> recipientGroup = None, e_user = Some (uid u), e_name = Some (name u), message = e \<rparr>"

definition groupError :: "string \<Rightarrow> string \<Rightarrow> BulkMessageError" where
  "groupError g e = \<lparr> recipientGroup = Some g, e_user = None, e_name = None, message = e \<rparr>"

definition recordOutcome :: "IUser \<Rightarrow> string + unit \<Rightarrow> BulkMessageReport \<Rightarrow> BulkMessageReport" where
  "recordOutcome u out r =
     (case out of
        Inl e \<Rightarrow> r\<lparr> errors := errors r @ [recipientError u e], numFailed := numFailed r + 1 \<rparr>
      | Inr _ \<Rightarrow> r\<lparr> numRecipients := numRecipients r + 1,
                     recipients := recipients r @ [recipientEntry u] \<rparr>)"

definition groupUsers :: "'c BulkMessageService \<Rightarrow> string \<Rightarrow> IUser list" where
  "groupUsers this g = (case resolve (recipientResolver this) g of Inl e \<Rightarrow> [] | Inr us \<Rightarrow> us)"

definition resolvedUsers :: "'c BulkMessageService \<Rightarrow> string list \<Rightarrow> IUser list" where
  "resolvedUsers this gs = concat (map (groupUsers this) gs)"

definition resolveFails :: "'c BulkMessageService \<Rightarrow> string \<Rightarrow> bool" where
  "resolveFails this g = isl (resolve (recipientResolver this) g)"

fun firstSeen :: "string set \<Rightarrow> IUser list \<Rightarrow> IUser list" where
  "firstSeen seen [] = []"
| "firstSeen seen (u # us) =
     (if uid u \<in> seen then firstSeen seen us else u # firstSeen (insert (uid u) seen) us)"

definition recordGroup :: "'c BulkMessageService \<Rightarrow> string \<Rightarrow> BulkMessageReport \<Rightarrow> BulkMessageReport" where
  "recordGroup this g r =
     (case resolve (recipientResolver this) g of
        Inl e \<Rightarrow> r\<lparr> errors := errors r @ [groupError g e], numFailed := numFailed r + 1 \<rparr>
      | Inr us \<Rightarrow> r)"

definition attempted :: "'c BulkMessageService \<Rightarrow> nat list \<Rightarrow> string list \<Rightarrow> IUser list" where
  "attempted this gsched gs = firstSeen {} (resolvedUsers this (completionOrder gsched gs))"

definition rendersFor :: "'c BulkMessageService \<Rightarrow> string \<Rightarrow> IUser \<Rightarrow> bool" where
  "rendersFor this template u =
     (case createContextFromUser (contextFactory this) u of
        Inl e \<Rightarrow> False
      | Inr c \<Rightarrow> \<not> isl (resolveTemplate (templateResolver this) c template))"

subsection \<open>Example collaborators\<close>

text \<open>
  Collaborators to run the service on: a resolver given by a table of its groups, a
  context factory that yields the user's name and fails for the listed \<^verbatim>\<open>_id\<close>s, a
  template resolver that appends the context to the template, and a transport that
  fails for the listed \<^verbatim>\<open>_id\<close>s.
\<close>

definition exampleUser :: "string \<Rightarrow> string \<Rightarrow> IUser" where
  "exampleUser i n =
     \<lparr> uid = i, createdAt = 0, updatedAt = 0, name = n, team = ''team'',
       phone = ''0700000000'', email = ''user@example.com'', joinedAt = 0 \<rparr>"

definition exampleService ::
  "(string \<times> (string + IUser list)) list \<Rightarrow> string list \<Rightarrow> string list \<Rightarrow> string BulkMessageService" where
  "exampleService table noContext noTransport =
     \<lparr> recipientResolver =
         \<lparr> canResolve = (\<lambda>g. map_of table g \<noteq> None),
           resolve = (\<lambda>g. case map_of table g of Some r \<Rightarrow> r | None \<Rightarrow> Inl ''unknown group'') \<rparr>,
       contextFactory =
         \<lparr> createContextFromUser =
             (\<lambda>u. if uid u \<in> set noContext then Inl ''no context'' else Inr (name u)) \<rparr>,
       templateResolver = \<lparr> resolveTemplate = (\<lambda>c t. Inr (t @ c)) \<rparr>,
       transport =
         \<lparr> sendMessage =
             (\<lambda>u m. if uid u \<in> set noTransport then Inl ''transport failed'' else Inr ()) \<rparr> \<rparr>"

definition exampleModules :: "(string, unit, unit) modules" where
  "exampleModules =
     \<lparr> new_MessageTemplateResolver = \<lparr> resolveTemplate = (\<lambda>c t. Inr (t @ c)) \<rparr>,
       new_RecipientResolver =
         (\<lambda>users. \<lparr> canResolve = (\<lambda>g. g = ''all''), resolve = (\<lambda>g. Inr []) \<rparr>),
       new_SmsMessageTransport = (\<lambda>sms. \<lparr> sendMessage = (\<lambda>u m. Inr ()) \<rparr>),
       getPreviewUser = exampleUser ''preview'' ''Preview User'' \<rparr>"

section \<open>Completion orders, the report and the recipient list\<close>

lemma mset_take_drop_nth:
  "i < length xs \<Longrightarrow> add_mset (xs ! i) (mset (take i xs @ drop (Suc i) xs)) = mset xs"
proof -
  assume "i < length xs"
  then have "xs = take i xs @ xs ! i # drop (Suc i) xs" by (rule id_take_nth_drop)
  then have "mset xs = mset (take i xs @ xs ! i # drop (Suc i) xs)" by simp
  then show ?thesis by simp
qed

lemma mset_completionOrder: "mset (completionOrder sched xs) = mset xs"
proof (induction sched xs rule: completionOrder.induct)
  case (3 k ks x xs)
  let ?ys = "x # xs"
  let ?i = "k mod length ?ys"
  have lt: "?i < length ?ys" by simp
  have "mset (completionOrder (k # ks) ?ys)
      = add_mset (?ys ! ?i) (mset (completionOrder ks (take ?i ?ys @ drop (Suc ?i) ?ys)))"
    by (simp add: Let_def)
  also have "\<dots> = add_mset (?ys ! ?i) (mset (take ?i ?ys @ drop (Suc ?i) ?ys))"
    using "3.IH" [of ?i] by simp
  also have "\<dots> = mset ?ys" using lt by (rule mset_take_drop_nth)
  finally show ?case .
qed simp_all

lemma set_completionOrder: "set (completionOrder sched xs) = set xs"
  using mset_completionOrder [of sched xs] by (metis set_mset_mset)

lemma length_completionOrder: "length (completionOrder sched xs) = length xs"
  using mset_completionOrder [of sched xs] by (metis size_mset)

lemma completionOrder_map: "completionOrder sched (map f xs) = map f (completionOrder sched xs)"
proof (induction sched xs rule: completionOrder.induct)
  case (3 k ks x xs)
  let ?ys = "x # xs"
  let ?i = "k mod length ?ys"
  have lt: "?i < length ?ys" by simp
  have "completionOrder (k # ks) (map f ?ys)
      = map f ?ys ! ?i # completionOrder ks (take ?i (map f ?ys) @ drop (Suc ?i) (map f ?ys))"
    by (simp add: Let_def)
  also have "take ?i (map f ?ys) @ drop (Suc ?i) (map f ?ys) = map f (take ?i ?ys @ drop (Suc ?i) ?ys)"
    by (simp only: take_map drop_map map_append)
  also have "map f ?ys ! ?i = f (?ys ! ?i)" using lt by (rule nth_map)
  finally show ?case using "3.IH" [of ?i] by (simp add: Let_def)
qed simp_all

lemma completionOrder_Nil_sched: "completionOrder [] xs = xs"
  by (cases xs) simp_all

text \<open>Every order of completion has a schedule.\<close>

lemma completionOrder_complete:
  "mset ys = mset xs \<Longrightarrow> \<exists>sched. completionOrder sched xs = ys"
proof (induction ys arbitrary: xs)
  case Nil
  then have "xs = []" by simp
  then have "completionOrder [] xs = []" by simp
  then show ?case ..
next
  case (Cons y ys)
  have "y \<in> set xs" using Cons.prems by (metis list.set_intros(1) set_mset_mset)
  then obtain i where i: "i < length xs" "xs ! i = y" by (auto simp: in_set_conv_nth)
  let ?rest = "take i xs @ drop (Suc i) xs"
  have "add_mset y (mset ?rest) = mset xs" using mset_take_drop_nth [OF i(1)] i(2) by simp
  moreover have "add_mset y (mset ys) = mset xs" using Cons.prems by simp
  ultimately have "add_mset y (mset ys) = add_mset y (mset ?rest)" by (simp only:)
  then have "mset ys = mset ?rest" by (simp only: add_mset_add_mset_same_iff)
  then obtain sched where sched: "completionOrder sched ?rest = ys" using Cons.IH by blast
  from i(1) obtain x xs' where xs: "xs = x # xs'" by (cases xs) auto
  have "i mod length (x # xs') = i" using i(1) xs by simp
  then have "completionOrder (i # sched) (x # xs')
      = (x # xs') ! i # completionOrder sched (take i (x # xs') @ drop (Suc i) (x # xs'))"
    by (simp only: completionOrder.simps Let_def)
  with xs i(2) sched have "completionOrder (i # sched) xs = y # ys" by simp
  then show ?case ..
qed


lemma sendToRecipient_eq:
  "sendToRecipient this u t (r, cs) =
     (recordOutcome u (sendOutcome this t u) r, cs @ recipientCalls this t u)"
  by (simp add: sendToRecipient_def createMessageForUser_def sendOutcome_def recipientCalls_def
      recordOutcome_def recipientEntry_def recipientError_def Let_def split: sum.splits)

lemma fold_sendToRecipient:
  "fold (\<lambda>u. sendToRecipient this u t) us (r, cs) =
     (fold (\<lambda>u. recordOutcome u (sendOutcome this t u)) us r,
      cs @ concat (map (recipientCalls this t) us))"
  by (induction us arbitrary: r cs) (simp_all add: sendToRecipient_eq)

lemma fold_recordOutcome_recipients:
  "recipients (fold (\<lambda>u. recordOutcome u (f u)) us r) =
     recipients r @ map recipientEntry (filter (\<lambda>u. \<not> isl (f u)) us)"
  by (induction us arbitrary: r) (auto simp: recordOutcome_def split: sum.splits)

lemma fold_recordOutcome_errors:
  "errors (fold (\<lambda>u. recordOutcome u (f u)) us r) =
     errors r @ map (\<lambda>u. recipientError u (projl (f u))) (filter (\<lambda>u. isl (f u)) us)"
  by (induction us arbitrary: r) (auto simp: recordOutcome_def split: sum.splits)

lemma fold_recordOutcome_numRecipients:
  "numRecipients (fold (\<lambda>u. recordOutcome u (f u)) us r) =
     numRecipients r + length (filter (\<lambda>u. \<not> isl (f u)) us)"
  by (induction us arbitrary: r) (auto simp: recordOutcome_def split: sum.splits)

lemma fold_recordOutcome_numFailed:
  "numFailed (fold (\<lambda>u. recordOutcome u (f u)) us r) =
     numFailed r + length (filter (\<lambda>u. isl (f u)) us)"
  by (induction us arbitrary: r) (auto simp: recordOutcome_def split: sum.splits)


lemma fold_addRecipient:
  "fold addRecipient rs (a, ids) = (a @ firstSeen ids rs, ids \<union> uid ` set rs)"
  by (induction rs arbitrary: a ids) (auto simp: addRecipient_def)

lemma firstSeen_append:
  "firstSeen s (xs @ ys) = firstSeen s xs @ firstSeen (s \<union> uid ` set xs) ys"
  by (induction xs arbitrary: s) (auto simp: insert_absorb)

lemma addRecipientsFromGroup_eq:
  "addRecipientsFromGroup this g (a, ids, r, cs) =
     (a @ firstSeen ids (groupUsers this g), ids \<union> uid ` set (groupUsers this g),
      recordGroup this g r, cs @ [ResolveCall g])"
  by (simp add: addRecipientsFromGroup_def fold_addRecipient groupUsers_def recordGroup_def
      groupError_def Let_def split: sum.splits)

lemma fold_addRecipientsFromGroup:
  "fold (addRecipientsFromGroup this) gs (a, ids, r, cs) =
     (a @ firstSeen ids (resolvedUsers this gs), ids \<union> uid ` set (resolvedUsers this gs),
      fold (recordGroup this) gs r, cs @ map ResolveCall gs)"
proof (induction gs arbitrary: a ids r cs)
  case Nil
  show ?case by (simp add: resolvedUsers_def)
next
  case (Cons g gs)
  show ?case
    by (simp add: addRecipientsFromGroup_eq Cons.IH resolvedUsers_def firstSeen_append Un_assoc image_Un)
qed

lemma Promise_all_map:
  "Promise_all sched (map f xs) st = fold f (completionOrder sched xs) st"
  by (simp add: Promise_all_def completionOrder_map fold_map comp_def)

lemma getRecipients_eq:
  "getRecipients this gsched gs (r, cs) =
     (firstSeen {} (resolvedUsers this (completionOrder gsched gs)),
      fold (recordGroup this) (completionOrder gsched gs) r,
      cs @ map ResolveCall (completionOrder gsched gs))"
  by (simp add: getRecipients_def Promise_all_map fold_addRecipientsFromGroup Let_def)

lemma fold_recordGroup_errors:
  "errors (fold (recordGroup this) gs r) =
     errors r @ map (\<lambda>g. groupError g (projl (resolve (recipientResolver this) g)))
                   (filter (resolveFails this) gs)"
  by (induction gs arbitrary: r) (auto simp: recordGroup_def resolveFails_def split: sum.splits)

lemma fold_recordGroup_numFailed:
  "numFailed (fold (recordGroup this) gs r) = numFailed r + length (filter (resolveFails this) gs)"
  by (induction gs arbitrary: r) (auto simp: recordGroup_def resolveFails_def split: sum.splits)

lemma fold_recordGroup_recipients:
  "recipients (fold (recordGroup this) gs r) = recipients r"
  by (induction gs arbitrary: r) (auto simp: recordGroup_def split: sum.splits)

lemma fold_recordGroup_numRecipients:
  "numRecipients (fold (recordGroup this) gs r) = numRecipients r"
  by (induction gs arbitrary: r) (auto simp: recordGroup_def split: sum.splits)


lemma firstSeen_ids: "uid ` set (firstSeen s xs) = uid ` set xs - s"
  by (induction xs arbitrary: s) auto

lemma firstSeen_distinct: "distinct (map uid (firstSeen s xs))"
  by (induction xs arbitrary: s) (auto simp: firstSeen_ids)


lemma firstSeen_subset: "set (firstSeen s xs) \<subseteq> set xs"
  by (induction xs arbitrary: s) auto


lemma firstSeen_length: "length (firstSeen {} xs) = card (uid ` set xs)"
proof -
  have "length (firstSeen {} xs) = length (map uid (firstSeen {} xs))" by simp
  also have "\<dots> = card (set (map uid (firstSeen {} xs)))"
    using firstSeen_distinct [of "{}" xs] by (simp only: distinct_card)
  also have "set (map uid (firstSeen {} xs)) = uid ` set xs"
    using firstSeen_ids [of "{}" xs] by simp
  finally show ?thesis .
qed

lemma send_invalid:
  assumes "filter (\<lambda>g. \<not> canResolve (recipientResolver this) g) gs \<noteq> []"
  shows "send this gsched qsched gs t cs =
     (Inl (''Invalid recipients: '' @ join '', ''
         (map (\<lambda>g. [CHR 0x27] @ g @ [CHR 0x27])
            (filter (\<lambda>g. \<not> canResolve (recipientResolver this) g) gs))),
      cs @ map CanResolveCall gs)"
  using assms by (simp add: send_def Let_def)

lemma send_valid:
  assumes "filter (\<lambda>g. \<not> canResolve (recipientResolver this) g) gs = []"
  shows "send this gsched qsched gs t cs =
     (Inr (fold (\<lambda>u. recordOutcome u (sendOutcome this t u))
             (completionOrder qsched (attempted this gsched gs))
             (fold (recordGroup this) (completionOrder gsched gs)
                \<lparr> errors = [], numFailed = 0, numRecipients = 0, recipients = [] \<rparr>)),
      cs @ map CanResolveCall gs @ map ResolveCall (completionOrder gsched gs)
         @ concat (map (recipientCalls this t) (completionOrder qsched (attempted this gsched gs))))"
  using assms
  by (simp add: send_def Let_def getRecipients_eq sendToRecipients_def BatchJobQueue_run_def
      fold_sendToRecipient attempted_def)


lemma sublist_prepend: "sublist xs ys \<Longrightarrow> sublist xs (ps @ ys)"
proof -
  assume "sublist xs ys"
  then obtain a b where "ys = a @ xs @ b" by (auto simp: sublist_def)
  then have "ps @ ys = (ps @ a) @ xs @ b" by simp
  then show ?thesis by (metis sublist_appendI)
qed

lemma sublist_join: "x \<in> set xs \<Longrightarrow> sublist x (join sep xs)"
proof (induction sep xs rule: join.induct)
  case (1 sep)
  then show ?case by simp
next
  case (2 sep y)
  then show ?case by simp
next
  case (3 sep y z zs)
  show ?case
  proof (cases "x = y")
    case True
    have "sublist x ([] @ x @ (sep @ join sep (z # zs)))" by (rule sublist_appendI)
    with True show ?thesis by simp
  next
    case False
    with "3.prems" have "x \<in> set (z # zs)" by simp
    then have "sublist x (join sep (z # zs))" by (rule "3.IH")
    then have "sublist x ((y @ sep) @ join sep (z # zs))" by (rule sublist_prepend)
    then show ?thesis by simp
  qed
qed

section \<open>Validation of the recipient groups\<close>

text \<open>
  C3. When a requested group \<open>g\<close> has \<open>canResolve g = False\<close>, \<open>send\<close> throws: its
  result is the error whose message is \<^verbatim>\<open>Invalid recipients: \<close> followed by every
  invalid group, in quotes, separated by \<^verbatim>\<open>, \<close>, so that each invalid group's quoted
  name is a part of the message. No report is returned. The only calls made are those
  of \<^verbatim>\<open>canResolve\<close>, one for each group: no group is resolved, no context is created,
  nothing is rendered and the transport is not called.
\<close>

theorem send_rejects_invalid_groups:
  assumes "g \<in> set recipientGroups" and "\<not> canResolve (recipientResolver this) g"
  shows "fst (send this gsched qsched recipientGroups t cs)
           = Inl (''Invalid recipients: '' @ join '', ''
               (map (\<lambda>h. [CHR 0x27] @ h @ [CHR 0x27])
                  (filter (\<lambda>h. \<not> canResolve (recipientResolver this) h) recipientGroups)))
         \<and> (\<forall>h \<in> set recipientGroups. \<not> canResolve (recipientResolver this) h
               \<longrightarrow> sublist ([CHR 0x27] @ h @ [CHR 0x27])
                     (projl (fst (send this gsched qsched recipientGroups t cs))))
         \<and> snd (send this gsched qsched recipientGroups t cs) = cs @ map CanResolveCall recipientGroups
         \<and> filter isResolveCall (snd (send this gsched qsched recipientGroups t cs))
             = filter isResolveCall cs
         \<and> filter isSendMessageCall (snd (send this gsched qsched recipientGroups t cs))
             = filter isSendMessageCall cs"
proof -
  let ?inv = "filter (\<lambda>h. \<not> canResolve (recipientResolver this) h) recipientGroups"
  let ?q = "\<lambda>h. [CHR 0x27] @ h @ [CHR 0x27]"
  let ?msg = "''Invalid recipients: '' @ join '', '' (map ?q ?inv)"
  have "g \<in> set ?inv" using assms by simp
  then have ne: "?inv \<noteq> []" by (metis empty_iff empty_set)
  have eq: "send this gsched qsched recipientGroups t cs = (Inl ?msg, cs @ map CanResolveCall recipientGroups)"
    using ne by (rule send_invalid)
  have listed: "sublist (?q h) ?msg" if "h \<in> set recipientGroups" "\<not> canResolve (recipientResolver this) h" for h
  proof -
    have "?q h \<in> set (map ?q ?inv)" using that by simp
    then have "sublist (?q h) (join '', '' (map ?q ?inv))" by (rule sublist_join)
    then show ?thesis by (rule sublist_prepend)
  qed
  have "filter isResolveCall (cs @ map CanResolveCall recipientGroups) = filter isResolveCall cs"
    and "filter isSendMessageCall (cs @ map CanResolveCall recipientGroups)
           = filter isSendMessageCall cs"
    by (simp_all add: filter_map comp_def)
  with eq listed show ?thesis by simp
qed

theorem send_rejects_invalid_groups_witness:
  "send (exampleService [(''teamA'', Inr [exampleUser ''1'' ''A''])] [] [])
      [] [] [''teamA'', ''nonexistent-group'', ''other''] ''Hi '' []
     = (Inl (''Invalid recipients: 'nonexistent-group', 'other'' @ [CHR 0x27]),
        [CanResolveCall ''teamA'', CanResolveCall ''nonexistent-group'', CanResolveCall ''other''])"
proof -
  let ?svc = "exampleService [(''teamA'', Inr [exampleUser ''1'' ''A''])] [] []"
  let ?gs = "[''teamA'', ''nonexistent-group'', ''other'']"
  have h1: "''nonexistent-group'' \<in> set ?gs" by simp
  have h2: "\<not> canResolve (recipientResolver ?svc) ''nonexistent-group''"
    by (simp add: exampleService_def)
  have inv: "filter (\<lambda>h. \<not> canResolve (recipientResolver ?svc) h) ?gs = [''nonexistent-group'', ''other'']"
    by (simp add: exampleService_def)
  from send_rejects_invalid_groups [OF h1 h2, of "[]" "[]" "''Hi ''" "[]"]
  have "fst (send ?svc [] [] ?gs ''Hi '' []) = Inl (''Invalid recipients: 'nonexistent-group', 'other'' @ [CHR 0x27])"
    and "snd (send ?svc [] [] ?gs ''Hi '' []) = [] @ map CanResolveCall ?gs"
    unfolding inv by simp_all
  then show ?thesis by (simp add: prod_eq_iff)
qed

lemma createMessageForUser_fst:
  "fst (createMessageForUser this u t cs) =
     (case createContextFromUser (contextFactory this) u of
        Inl e \<Rightarrow> Inl e
      | Inr c \<Rightarrow> resolveTemplate (templateResolver this) c t)"
  by (simp add: createMessageForUser_def Let_def split: sum.splits)

lemma createMessageForUser_snd:
  "snd (createMessageForUser this u t cs) =
     cs @ (case createContextFromUser (contextFactory this) u of
             Inl e \<Rightarrow> [CreateContextCall u]
           | Inr c \<Rightarrow> [CreateContextCall u, TemplateResolveCall c t])"
  by (simp add: createMessageForUser_def Let_def split: sum.splits)

section \<open>Preview\<close>

text \<open>
  C7. \<open>previewMessage\<close> never calls the transport and resolves no group: the calls it
  adds to the trace are those of the context factory and of the template resolver,
  after the calls made before, which it leaves as they are. It takes and returns no
  report and no recipient list. Its result depends on the template alone, not on what
  was called before: a second call with the same template, after the first, returns
  what the first returned. (The context factory and the template resolver are
  functions here, that is, deterministic.)
\<close>

theorem previewMessage_side_effect_free:
  "filter isSendMessageCall (snd (previewMessage im this t cs)) = filter isSendMessageCall cs
   \<and> filter isResolveCall (snd (previewMessage im this t cs)) = filter isResolveCall cs
   \<and> take (length cs) (snd (previewMessage im this t cs)) = cs
   \<and> fst (previewMessage im this t cs') = fst (previewMessage im this t cs)
   \<and> fst (previewMessage im this t (snd (previewMessage im this t cs)))
       = fst (previewMessage im this t cs)"
  by (simp add: previewMessage_def createMessageForUser_fst createMessageForUser_snd
      split: sum.splits)

text \<open>
  C9. If the context factory fails on the preview user, or the template resolver fails
  on the preview user's context, \<open>previewMessage\<close> rejects with that same error, and
  records nothing but the calls it made. \<open>sendToRecipient\<close>, on a user for whom the
  same step fails, does not reject: it appends the error, with the user's \<^verbatim>\<open>_id\<close> and
  name, to the report's errors and counts it in \<open>numFailed\<close>.
\<close>

theorem previewMessage_propagates_errors:
  "(createContextFromUser (contextFactory this) (getPreviewUser im) = Inl e
      \<longrightarrow> previewMessage im this t cs = (Inl e, cs @ [CreateContextCall (getPreviewUser im)]))
   \<and> (createContextFromUser (contextFactory this) (getPreviewUser im) = Inr c
        \<and> resolveTemplate (templateResolver this) c t = Inl e
      \<longrightarrow> previewMessage im this t cs
            = (Inl e, cs @ [CreateContextCall (getPreviewUser im), TemplateResolveCall c t]))
   \<and> (createContextFromUser (contextFactory this) u = Inl e
        \<or> createContextFromUser (contextFactory this) u = Inr c
            \<and> resolveTemplate (templateResolver this) c t = Inl e
      \<longrightarrow> fst (sendToRecipient this u t (r, cs))
            = r\<lparr> errors := errors r @ [recipientError u e], numFailed := numFailed r + 1 \<rparr>)"
  by (auto simp: previewMessage_def createMessageForUser_def sendToRecipient_def
      recipientError_def Let_def)

theorem previewMessage_propagates_errors_witness:
  "createContextFromUser (contextFactory (exampleService [] [''preview''] [])) (getPreviewUser exampleModules)
     = Inl ''no context''
   \<and> previewMessage exampleModules (exampleService [] [''preview''] []) ''Hi '' []
     = (Inl ''no context'', [CreateContextCall (getPreviewUser exampleModules)])"
proof -
  let ?svc = "exampleService [] [''preview''] []"
  have h: "createContextFromUser (contextFactory ?svc) (getPreviewUser exampleModules) = Inl ''no context''"
    by (simp add: exampleService_def exampleModules_def exampleUser_def)
  from previewMessage_propagates_errors [of ?svc exampleModules "''no context''" "''Hi ''" "[]"] h
  have "previewMessage exampleModules ?svc ''Hi '' []
          = (Inl ''no context'', [] @ [CreateContextCall (getPreviewUser exampleModules)])"
    by blast
  with h show ?thesis by simp
qed

section \<open>Construction\<close>

text \<open>
  C8. The constructor throws if and only if the recipient resolver and the user service
  are both absent, or the transport and the SMS service are both absent. Otherwise it
  returns a service: a collaborator that was supplied is used, a missing recipient
  resolver is the default one built from the user service (which is then present), a
  missing transport is the default one built from the SMS service (which is then
  present), and a missing template resolver is the default one. On such a service
  \<open>send\<close> throws only when a requested group cannot be resolved: no check of the
  configuration is left to the time of the call.
\<close>

theorem constructor_validation:
  "isl (new_BulkMessageService im args)
     = ((arg_recipientResolver args = None \<and> arg_users args = None)
        \<or> (arg_transport args = None \<and> arg_smsService args = None))
   \<and> (new_BulkMessageService im args = Inr svc \<longrightarrow>
         contextFactory svc = arg_contextFactory args
       \<and> (\<forall>r. arg_recipientResolver args = Some r \<longrightarrow> recipientResolver svc = r)
       \<and> (arg_recipientResolver args = None \<longrightarrow>
            (\<exists>us. arg_users args = Some us \<and> recipientResolver svc = new_RecipientResolver im (Some us)))
       \<and> (\<forall>tr. arg_transport args = Some tr \<longrightarrow> transport svc = tr)
       \<and> (arg_transport args = None \<longrightarrow>
            (\<exists>sms. arg_smsService args = Some sms \<and> transport svc = new_SmsMessageTransport im (Some sms)))
       \<and> (\<forall>tr. arg_templateResolver args = Some tr \<longrightarrow> templateResolver svc = tr)
       \<and> (arg_templateResolver args = None \<longrightarrow> templateResolver svc = new_MessageTemplateResolver im)
       \<and> isl (fst (send svc gsched qsched recipientGroups t cs))
           = (\<exists>g \<in> set recipientGroups. \<not> canResolve (recipientResolver svc) g))"
proof -
  have sendErr: "isl (fst (send s gsched qsched recipientGroups t cs))
           = (\<exists>g \<in> set recipientGroups. \<not> canResolve (recipientResolver s) g)" for s :: "'a BulkMessageService"
  proof (cases "filter (\<lambda>g. \<not> canResolve (recipientResolver s) g) recipientGroups = []")
    case True
    then have "\<not> (\<exists>g \<in> set recipientGroups. \<not> canResolve (recipientResolver s) g)"
      by (simp add: filter_empty_conv)
    with send_valid [OF True] show ?thesis by simp
  next
    case False
    then have "\<exists>g \<in> set recipientGroups. \<not> canResolve (recipientResolver s) g"
      by (simp add: filter_empty_conv)
    with send_invalid [OF False] show ?thesis by simp
  qed
  have "isl (new_BulkMessageService im args)
     = ((arg_recipientResolver args = None \<and> arg_users args = None)
        \<or> (arg_transport args = None \<and> arg_smsService args = None))"
    by (simp add: new_BulkMessageService_def)
  moreover have "new_BulkMessageService im args = Inr svc \<Longrightarrow>
         contextFactory svc = arg_contextFactory args
       \<and> (\<forall>r. arg_recipientResolver args = Some r \<longrightarrow> recipientResolver svc = r)
       \<and> (arg_recipientResolver args = None \<longrightarrow>
            (\<exists>us. arg_users args = Some us \<and> recipientResolver svc = new_RecipientResolver im (Some us)))
       \<and> (\<forall>tr. arg_transport args = Some tr \<longrightarrow> transport svc = tr)
       \<and> (arg_transport args = None \<longrightarrow>
            (\<exists>sms. arg_smsService args = Some sms \<and> transport svc = new_SmsMessageTransport im (Some sms)))
       \<and> (\<forall>tr. arg_templateResolver args = Some tr \<longrightarrow> templateResolver svc = tr)
       \<and> (arg_templateResolver args = None \<longrightarrow> templateResolver svc = new_MessageTemplateResolver im)"
    by (auto simp: new_BulkMessageService_def split: if_splits)
  ultimately show ?thesis using sendErr [of svc] by blast
qed

theorem constructor_validation_witness:
  "new_BulkMessageService exampleModules
      \<lparr> arg_contextFactory = contextFactory (exampleService [] [] []),
        arg_templateResolver = None, arg_transport = None, arg_smsService = Some (),
        arg_recipientResolver = None, arg_users = Some () \<rparr>
     = Inr \<lparr> recipientResolver = new_RecipientResolver exampleModules (Some ()),
             contextFactory = contextFactory (exampleService [] [] []),
             templateResolver = new_MessageTemplateResolver exampleModules,
             transport = new_SmsMessageTransport exampleModules (Some ()) \<rparr>
   \<and> isl (new_BulkMessageService exampleModules
      \<lparr> arg_contextFactory = contextFactory (exampleService [] [] []),
        arg_templateResolver = None, arg_transport = None, arg_smsService = None,
        arg_recipientResolver = None, arg_users = Some () \<rparr>)"
proof -
  let ?args = "\<lparr> arg_contextFactory = contextFactory (exampleService [] [] []),
        arg_templateResolver = None, arg_transport = None, arg_smsService = Some (),
        arg_recipientResolver = None, arg_users = Some () \<rparr>"
  let ?bad = "\<lparr> arg_contextFactory = contextFactory (exampleService [] [] []),
        arg_templateResolver = None, arg_transport = None, arg_smsService = None :: unit option,
        arg_recipientResolver = None, arg_users = Some () \<rparr>"
  have notl: "\<not> isl (new_BulkMessageService exampleModules ?args)"
    using constructor_validation [of exampleModules ?args] by simp
  then obtain svc where svc: "new_BulkMessageService exampleModules ?args = Inr svc"
    by (cases "new_BulkMessageService exampleModules ?args") auto
  from constructor_validation [of exampleModules ?args svc] svc
  have "contextFactory svc = contextFactory (exampleService [] [] [])"
    and "recipientResolver svc = new_RecipientResolver exampleModules (Some ())"
    and "transport svc = new_SmsMessageTransport exampleModules (Some ())"
    and "templateResolver svc = new_MessageTemplateResolver exampleModules"
    by simp_all
  then have "svc = \<lparr> recipientResolver = new_RecipientResolver exampleModules (Some ()),
             contextFactory = contextFactory (exampleService [] [] []),
             templateResolver = new_MessageTemplateResolver exampleModules,
             transport = new_SmsMessageTransport exampleModules (Some ()) \<rparr>"
    by (cases svc) simp
  moreover have "isl (new_BulkMessageService exampleModules ?bad)"
    using constructor_validation [of exampleModules ?bad] by simp
  ultimately show ?thesis using svc by simp
qed

lemma length_filter_completionOrder:
  "length (filter P (completionOrder sched xs)) = length (filter P xs)"
proof -
  have "mset (filter P (completionOrder sched xs)) = mset (filter P xs)"
    by (simp only: mset_filter mset_completionOrder)
  then show ?thesis by (metis size_mset)
qed

lemma distinct_completionOrder: "distinct (completionOrder sched xs) = distinct xs"
  using mset_completionOrder [of sched xs] by (metis distinct_count_atmost_1 set_mset_mset)

lemma length_filter_key:
  "distinct (map f xs) \<Longrightarrow> length (filter (\<lambda>a. f a = i) xs) = (if i \<in> f ` set xs then 1 else 0)"
  by (induction xs) auto

lemma filter_eq_singleton: "distinct xs \<Longrightarrow> x \<in> set xs \<Longrightarrow> filter (\<lambda>a. a = x) xs = [x]"
  by (induction xs) (auto simp: filter_empty_conv)

lemma set_resolvedUsers:
  "set (resolvedUsers this gs) = (\<Union>g \<in> set gs. set (groupUsers this g))"
  by (simp add: resolvedUsers_def)

lemma set_resolvedUsers_completionOrder:
  "set (resolvedUsers this (completionOrder sched gs)) = set (resolvedUsers this gs)"
  by (simp only: set_resolvedUsers set_completionOrder)

lemma attempted_ids: "uid ` set (attempted this gsched gs) = uid ` set (resolvedUsers this gs)"
  by (simp add: attempted_def firstSeen_ids set_resolvedUsers_completionOrder)

lemma attempted_distinct: "distinct (map uid (attempted this gsched gs))"
  by (simp add: attempted_def firstSeen_distinct)

lemma attempted_length:
  "length (attempted this gsched gs) = card (uid ` set (resolvedUsers this gs))"
  by (simp add: attempted_def firstSeen_length set_resolvedUsers_completionOrder)

lemma attempted_getRecipients: "fst (getRecipients this gsched gs (r, cs)) = attempted this gsched gs"
  by (simp add: getRecipients_eq attempted_def)

lemma attempted_count:
  "length (filter (\<lambda>a. uid a = i) (attempted this gsched gs)) =
     (if i \<in> uid ` set (resolvedUsers this gs) then 1 else 0)"
proof -
  have "distinct (map uid (attempted this gsched gs))" by (rule attempted_distinct)
  then have "length (filter (\<lambda>a. uid a = i) (attempted this gsched gs)) =
     (if i \<in> uid ` set (attempted this gsched gs) then 1 else 0)"
    by (rule length_filter_key)
  then show ?thesis by (simp only: attempted_ids)
qed

lemma valid_iff:
  "(filter (\<lambda>g. \<not> canResolve (recipientResolver this) g) gs = []) =
     (\<forall>g \<in> set gs. canResolve (recipientResolver this) g)"
  by (simp add: filter_empty_conv)

lemma send_returns_iff:
  "(\<exists>rep. fst (send this gsched qsched gs t cs) = Inr rep) =
     (\<forall>g \<in> set gs. canResolve (recipientResolver this) g)"
proof (cases "filter (\<lambda>g. \<not> canResolve (recipientResolver this) g) gs = []")
  case True
  with send_valid [OF True, of gsched qsched t cs] show ?thesis by (simp add: valid_iff)
next
  case False
  with send_invalid [OF False, of gsched qsched t cs] show ?thesis by (simp add: valid_iff)
qed

lemma send_report:
  assumes "\<forall>g \<in> set gs. canResolve (recipientResolver this) g"
  shows "\<exists>rep. fst (send this gsched qsched gs t cs) = Inr rep
     \<and> recipients rep = map recipientEntry
         (filter (\<lambda>u. \<not> isl (sendOutcome this t u)) (completionOrder qsched (attempted this gsched gs)))
     \<and> errors rep =
         map (\<lambda>g. groupError g (projl (resolve (recipientResolver this) g)))
           (filter (resolveFails this) (completionOrder gsched gs))
         @ map (\<lambda>u. recipientError u (projl (sendOutcome this t u)))
             (filter (\<lambda>u. isl (sendOutcome this t u)) (completionOrder qsched (attempted this gsched gs)))
     \<and> numRecipients rep =
         length (filter (\<lambda>u. \<not> isl (sendOutcome this t u)) (attempted this gsched gs))
     \<and> numFailed rep = length (filter (resolveFails this) gs)
         + length (filter (\<lambda>u. isl (sendOutcome this t u)) (attempted this gsched gs))"
proof -
  have v: "filter (\<lambda>g. \<not> canResolve (recipientResolver this) g) gs = []"
    using assms by (simp add: valid_iff)
  show ?thesis
    by (simp add: send_valid [OF v] fold_recordOutcome_recipients fold_recordOutcome_errors
        fold_recordOutcome_numRecipients fold_recordOutcome_numFailed
        fold_recordGroup_recipients fold_recordGroup_errors fold_recordGroup_numRecipients
        fold_recordGroup_numFailed length_filter_completionOrder)
qed

lemma send_calls:
  assumes "\<forall>g \<in> set gs. canResolve (recipientResolver this) g"
  shows "snd (send this gsched qsched gs t cs) =
      cs @ map CanResolveCall gs @ map ResolveCall (completionOrder gsched gs)
         @ concat (map (recipientCalls this t) (completionOrder qsched (attempted this gsched gs)))"
proof -
  have v: "filter (\<lambda>g. \<not> canResolve (recipientResolver this) g) gs = []"
    using assms by (simp add: valid_iff)
  show ?thesis by (simp add: send_valid [OF v])
qed

lemma sentTo_recipientCalls:
  "length (filter (sentTo i) (concat (map (recipientCalls this t) xs))) =
     length (filter (\<lambda>a. uid a = i \<and> rendersFor this t a) xs)"
  by (induction xs) (auto simp: recipientCalls_def rendersFor_def split: sum.splits)

lemma send_sentTo:
  assumes "\<forall>g \<in> set gs. canResolve (recipientResolver this) g"
  shows "length (filter (sentTo i) (snd (send this gsched qsched gs t cs))) =
     length (filter (sentTo i) cs)
       + length (filter (\<lambda>a. uid a = i \<and> rendersFor this t a) (attempted this gsched gs))"
  by (simp add: send_calls [OF assms] filter_map comp_def sentTo_recipientCalls
      length_filter_completionOrder)

lemma length_filter_split:
  "length (filter (\<lambda>a. \<not> P a \<and> Q a) xs) + length (filter (\<lambda>a. P a \<and> Q a) xs)
     = length (filter Q xs)"
  by (induction xs) auto

lemma filter_user_recipientEntry:
  "filter (\<lambda>r. r_user r = i) (map recipientEntry xs) = map recipientEntry (filter (\<lambda>a. uid a = i) xs)"
  by (induction xs) (auto simp: recipientEntry_def)

lemma filter_user_recipientError:
  "filter (\<lambda>x. e_user x = Some i) (map (\<lambda>u. recipientError u (f u)) xs)
     = map (\<lambda>u. recipientError u (f u)) (filter (\<lambda>a. uid a = i) xs)"
  by (induction xs) (auto simp: recipientError_def)

lemma filter_user_groupError:
  "filter (\<lambda>x. e_user x = Some i) (map (\<lambda>g. groupError g (f g)) gs) = []"
  by (induction gs) (auto simp: groupError_def)

lemma filter_group_recipientError:
  "filter (\<lambda>x. recipientGroup x = Some g) (map (\<lambda>u. recipientError u (f u)) xs) = []"
  by (induction xs) (auto simp: recipientError_def)

lemma filter_group_groupError:
  "filter (\<lambda>x. recipientGroup x = Some g) (map (\<lambda>h. groupError h (f h)) gs)
     = replicate (length (filter (\<lambda>h. h = g) gs)) (groupError g (f g))"
  by (induction gs) (auto simp: groupError_def)

lemma count_list_filter: "length (filter (\<lambda>h. h = g) gs) = count_list gs g"
  by (induction gs) auto

lemma send_user_entries:
  assumes "fst (send this gsched qsched gs t cs) = Inr rep"
  shows "length (filter (\<lambda>r. r_user r = i) (recipients rep))
       = length (filter (\<lambda>a. \<not> isl (sendOutcome this t a) \<and> uid a = i) (attempted this gsched gs))"
    and "length (filter (\<lambda>x. e_user x = Some i) (errors rep))
       = length (filter (\<lambda>a. isl (sendOutcome this t a) \<and> uid a = i) (attempted this gsched gs))"
proof -
  have v: "\<forall>g \<in> set gs. canResolve (recipientResolver this) g"
    using assms send_returns_iff [of this gsched qsched gs t cs] by blast
  from send_report [OF v, of gsched qsched t cs] assms
  have r: "recipients rep = map recipientEntry
         (filter (\<lambda>u. \<not> isl (sendOutcome this t u)) (completionOrder qsched (attempted this gsched gs)))"
    and e: "errors rep =
         map (\<lambda>g. groupError g (projl (resolve (recipientResolver this) g)))
           (filter (resolveFails this) (completionOrder gsched gs))
         @ map (\<lambda>u. recipientError u (projl (sendOutcome this t u)))
             (filter (\<lambda>u. isl (sendOutcome this t u)) (completionOrder qsched (attempted this gsched gs)))"
    by auto
  show "length (filter (\<lambda>r. r_user r = i) (recipients rep))
       = length (filter (\<lambda>a. \<not> isl (sendOutcome this t a) \<and> uid a = i) (attempted this gsched gs))"
    by (simp add: r filter_user_recipientEntry length_filter_completionOrder)
  show "length (filter (\<lambda>x. e_user x = Some i) (errors rep))
       = length (filter (\<lambda>a. isl (sendOutcome this t a) \<and> uid a = i) (attempted this gsched gs))"
    by (simp add: e filter_user_recipientError filter_user_groupError length_filter_completionOrder)
qed

lemma send_group_entries:
  assumes "fst (send this gsched qsched gs t cs) = Inr rep"
  shows "filter (\<lambda>x. recipientGroup x = Some g) (errors rep)
       = (if resolveFails this g
          then replicate (count_list gs g) (groupError g (projl (resolve (recipientResolver this) g)))
          else [])"
proof -
  have v: "\<forall>g \<in> set gs. canResolve (recipientResolver this) g"
    using assms send_returns_iff [of this gsched qsched gs t cs] by blast
  from send_report [OF v, of gsched qsched t cs] assms
  have e: "errors rep =
         map (\<lambda>g. groupError g (projl (resolve (recipientResolver this) g)))
           (filter (resolveFails this) (completionOrder gsched gs))
         @ map (\<lambda>u. recipientError u (projl (sendOutcome this t u)))
             (filter (\<lambda>u. isl (sendOutcome this t u)) (completionOrder qsched (attempted this gsched gs)))"
    by auto
  have "length (filter (\<lambda>h. h = g) (filter (resolveFails this) (completionOrder gsched gs)))
      = length (filter (\<lambda>h. resolveFails this h \<and> h = g) gs)"
    by (simp add: length_filter_completionOrder)
  also have "\<dots> = (if resolveFails this g then count_list gs g else 0)"
  proof (cases "resolveFails this g")
    case True
    then have "filter (\<lambda>h. resolveFails this h \<and> h = g) gs = filter (\<lambda>h. h = g) gs"
      by (intro filter_cong) auto
    with True show ?thesis by (simp add: count_list_filter)
  next
    case False
    then have "filter (\<lambda>h. resolveFails this h \<and> h = g) gs = []"
      by (auto simp: filter_empty_conv)
    with False show ?thesis by simp
  qed
  finally show ?thesis
    by (simp add: e filter_group_recipientError filter_group_groupError)
qed

text \<open>The definitions to unfold when the service is run on the example collaborators.\<close>

lemmas run_defs = send_def getRecipients_def Promise_all_def addRecipientsFromGroup_def addRecipient_def
  sendToRecipients_def BatchJobQueue_run_def sendToRecipient_def createMessageForUser_def
  exampleService_def exampleUser_def Let_def

section \<open>The report of a send\<close>

text \<open>
  C1. When \<open>send\<close> returns a report, \<open>numRecipients + numFailed\<close> is the number of
  distinct \<^verbatim>\<open>_id\<close>s among the users the requested groups resolve to, plus the number of
  requested groups whose resolution fails. The two counters are the lengths of the two
  lists. Every resolved user's \<^verbatim>\<open>_id\<close> has exactly one entry in \<open>recipients\<close> and
  \<open>errors\<close> taken together, so it is in one of the lists and not in the other. Every
  group whose resolution fails has its entries in \<open>errors\<close>, one for each time it was
  requested (an entry of \<open>recipients\<close> names no group). This holds for every order in
  which the resolutions and the sends complete.
\<close>

theorem send_report_accounts_for_every_attempt:
  assumes "fst (send this gsched qsched recipientGroups t cs) = Inr rep"
  shows "numRecipients rep + numFailed rep
           = card (uid ` set (resolvedUsers this recipientGroups))
             + length (filter (resolveFails this) recipientGroups)
       \<and> numRecipients rep = length (recipients rep)
       \<and> numFailed rep = length (errors rep)
       \<and> (\<forall>u \<in> set (resolvedUsers this recipientGroups).
             length (filter (\<lambda>r. r_user r = uid u) (recipients rep))
               + length (filter (\<lambda>x. e_user x = Some (uid u)) (errors rep)) = 1)
       \<and> (\<forall>g \<in> set recipientGroups. resolveFails this g \<longrightarrow>
             length (filter (\<lambda>x. recipientGroup x = Some g) (errors rep))
               = count_list recipientGroups g
           \<and> 0 < count_list recipientGroups g)"
proof -
  let ?att = "attempted this gsched recipientGroups"
  let ?ok = "\<lambda>u. \<not> isl (sendOutcome this t u)"
  have v: "\<forall>g \<in> set recipientGroups. canResolve (recipientResolver this) g"
    using assms send_returns_iff [of this gsched qsched recipientGroups t cs] by blast
  from send_report [OF v, of gsched qsched t cs] assms
  have r: "recipients rep = map recipientEntry (filter ?ok (completionOrder qsched ?att))"
    and e: "errors rep =
         map (\<lambda>g. groupError g (projl (resolve (recipientResolver this) g)))
           (filter (resolveFails this) (completionOrder gsched recipientGroups))
         @ map (\<lambda>u. recipientError u (projl (sendOutcome this t u)))
             (filter (\<lambda>u. isl (sendOutcome this t u)) (completionOrder qsched ?att))"
    and nr: "numRecipients rep = length (filter ?ok ?att)"
    and nf: "numFailed rep = length (filter (resolveFails this) recipientGroups)
         + length (filter (\<lambda>u. isl (sendOutcome this t u)) ?att)"
    by auto
  have total: "length (filter ?ok ?att) + length (filter (\<lambda>u. isl (sendOutcome this t u)) ?att)
      = length ?att"
    using sum_length_filter_compl [of "\<lambda>u. isl (sendOutcome this t u)" ?att] by simp
  have c1: "numRecipients rep + numFailed rep
           = card (uid ` set (resolvedUsers this recipientGroups))
             + length (filter (resolveFails this) recipientGroups)"
    using nr nf total by (simp add: attempted_length)
  have c2: "numRecipients rep = length (recipients rep)"
    by (simp add: nr r length_filter_completionOrder)
  have c3: "numFailed rep = length (errors rep)"
    by (simp add: nf e length_filter_completionOrder)
  have c4: "length (filter (\<lambda>r. r_user r = uid u) (recipients rep))
               + length (filter (\<lambda>x. e_user x = Some (uid u)) (errors rep)) = 1"
    if "u \<in> set (resolvedUsers this recipientGroups)" for u
  proof -
    have "length (filter (\<lambda>r. r_user r = uid u) (recipients rep))
               + length (filter (\<lambda>x. e_user x = Some (uid u)) (errors rep))
        = length (filter (\<lambda>a. uid a = uid u) ?att)"
      by (simp only: send_user_entries [OF assms] length_filter_split)
    also have "\<dots> = 1" using that by (simp add: attempted_count)
    finally show ?thesis .
  qed
  have c5: "length (filter (\<lambda>x. recipientGroup x = Some g) (errors rep))
               = count_list recipientGroups g \<and> 0 < count_list recipientGroups g"
    if "g \<in> set recipientGroups" "resolveFails this g" for g
  proof -
    have "count_list recipientGroups g \<noteq> 0" using that(1) by (simp add: count_list_0_iff)
    with that(2) show ?thesis by (simp add: send_group_entries [OF assms])
  qed
  from c1 c2 c3 c4 c5 show ?thesis by blast
qed

theorem send_report_accounts_for_every_attempt_witness:
  "fst (send (exampleService
           [(''a'', Inr [exampleUser ''1'' ''A'', exampleUser ''2'' ''B'']),
            (''b'', Inl ''lookup failed''),
            (''c'', Inr [exampleUser ''2'' ''B'', exampleUser ''3'' ''C''])] [] [''3''])
        [] [] [''a'', ''b'', ''c''] ''Hi '' [])
     = Inr \<lparr> errors = [groupError ''b'' ''lookup failed'',
                         recipientError (exampleUser ''3'' ''C'') ''transport failed''],
             numFailed = 2, numRecipients = 2,
             recipients = [recipientEntry (exampleUser ''1'' ''A''),
                           recipientEntry (exampleUser ''2'' ''B'')] \<rparr>
   \<and> (2::nat) + 2
     = card (uid ` set (resolvedUsers (exampleService
           [(''a'', Inr [exampleUser ''1'' ''A'', exampleUser ''2'' ''B'']),
            (''b'', Inl ''lookup failed''),
            (''c'', Inr [exampleUser ''2'' ''B'', exampleUser ''3'' ''C''])] [] [''3''])
          [''a'', ''b'', ''c'']))
       + length (filter (resolveFails (exampleService
           [(''a'', Inr [exampleUser ''1'' ''A'', exampleUser ''2'' ''B'']),
            (''b'', Inl ''lookup failed''),
            (''c'', Inr [exampleUser ''2'' ''B'', exampleUser ''3'' ''C''])] [] [''3'']))
          [''a'', ''b'', ''c''])"
proof -
  let ?svc = "exampleService
           [(''a'', Inr [exampleUser ''1'' ''A'', exampleUser ''2'' ''B'']),
            (''b'', Inl ''lookup failed''),
            (''c'', Inr [exampleUser ''2'' ''B'', exampleUser ''3'' ''C''])] [] [''3'']"
  let ?rep = "\<lparr> errors = [groupError ''b'' ''lookup failed'',
                         recipientError (exampleUser ''3'' ''C'') ''transport failed''],
             numFailed = 2, numRecipients = 2,
             recipients = [recipientEntry (exampleUser ''1'' ''A''),
                           recipientEntry (exampleUser ''2'' ''B'')] \<rparr>"
  have run: "fst (send ?svc [] [] [''a'', ''b'', ''c''] ''Hi '' []) = Inr ?rep"
    by (simp add: run_defs groupError_def recipientError_def recipientEntry_def)
  from send_report_accounts_for_every_attempt [OF run]
  have "numRecipients ?rep + numFailed ?rep
       = card (uid ` set (resolvedUsers ?svc [''a'', ''b'', ''c'']))
         + length (filter (resolveFails ?svc) [''a'', ''b'', ''c''])"
    by blast
  with run show ?thesis by simp
qed

lemma resolved_member:
  assumes "g \<in> set gs" and "resolve (recipientResolver this) g = Inr us" and "u \<in> set us"
  shows "u \<in> set (resolvedUsers this gs)"
proof -
  have "u \<in> set (groupUsers this g)" using assms(2,3) by (simp add: groupUsers_def)
  with assms(1) show ?thesis unfolding set_resolvedUsers by blast
qed

lemma attempted_subset: "set (attempted this gsched gs) \<subseteq> set (resolvedUsers this gs)"
  using firstSeen_subset [of "{}" "resolvedUsers this (completionOrder gsched gs)"]
  by (simp add: attempted_def set_resolvedUsers_completionOrder)

lemma send_sentTo_le:
  assumes "\<forall>g \<in> set gs. canResolve (recipientResolver this) g"
  shows "length (filter (sentTo i) (snd (send this gsched qsched gs t cs)))
       \<le> length (filter (sentTo i) cs) + 1"
proof -
  have "length (filter (\<lambda>a. uid a = i \<and> rendersFor this t a) (attempted this gsched gs))
      \<le> length (filter (\<lambda>a. uid a = i) (attempted this gsched gs))"
    using length_filter_split [of "rendersFor this t" "\<lambda>a. uid a = i" "attempted this gsched gs"]
    by (simp add: conj_commute)
  also have "\<dots> \<le> 1" by (simp add: attempted_count)
  finally show ?thesis by (simp add: send_sentTo [OF assms])
qed

section \<open>Failure of a group's resolution\<close>

text \<open>
  C5, as the code has it. Let every requested group be valid, so that \<open>send\<close> does
  not throw, and let the resolution of the requested group \<open>g\<close> fail with the message
  \<open>e\<close>. Then \<open>send\<close> returns a report. The group is resolved once for each time it
  is requested, and each such task of \<open>g\<close> appends to \<open>errors\<close> the one entry with
  \<open>recipientGroup = g\<close>, no user, no name and the message \<open>e\<close>, adds one to
  \<open>numFailed\<close> and adds no recipient. In the report the entries of \<open>errors\<close> that name
  \<open>g\<close> are that entry, once for each time \<open>g\<close> was requested (exactly one when \<open>g\<close> was
  requested once), and \<open>numFailed\<close> counts one for each requested group whose resolution
  fails and one for each recipient whose send fails.
\<close>

theorem send_captures_group_resolution_failure:
  assumes "\<forall>h \<in> set recipientGroups. canResolve (recipientResolver this) h"
    and "g \<in> set recipientGroups"
    and "resolve (recipientResolver this) g = Inl e"
  shows "\<exists>rep. fst (send this gsched qsched recipientGroups t cs) = Inr rep
      \<and> filter (\<lambda>x. recipientGroup x = Some g) (errors rep)
          = replicate (count_list recipientGroups g)
              \<lparr> recipientGroup = Some g, e_user = None, e_name = None, message = e \<rparr>
      \<and> 0 < count_list recipientGroups g
      \<and> numFailed rep = length (filter (resolveFails this) recipientGroups)
          + length (filter (\<lambda>u. isl (sendOutcome this t u)) (attempted this gsched recipientGroups))
      \<and> addRecipientsFromGroup this g (a, ids, r, cs')
          = (a, ids,
             r\<lparr> errors := errors r @
                  [\<lparr> recipientGroup = Some g, e_user = None, e_name = None, message = e \<rparr>],
               numFailed := numFailed r + 1 \<rparr>,
             cs' @ [ResolveCall g])"
proof -
  from send_report [OF assms(1), of gsched qsched t cs]
  obtain rep where rep: "fst (send this gsched qsched recipientGroups t cs) = Inr rep"
    and nf: "numFailed rep = length (filter (resolveFails this) recipientGroups)
          + length (filter (\<lambda>u. isl (sendOutcome this t u)) (attempted this gsched recipientGroups))"
    by blast
  have fails: "resolveFails this g" using assms(3) by (simp add: resolveFails_def)
  have pos: "0 < count_list recipientGroups g"
    using assms(2) count_list_0_iff [of recipientGroups g] by simp
  have "filter (\<lambda>x. recipientGroup x = Some g) (errors rep)
          = replicate (count_list recipientGroups g)
              \<lparr> recipientGroup = Some g, e_user = None, e_name = None, message = e \<rparr>"
    using fails assms(3) by (simp add: send_group_entries [OF rep] groupError_def)
  moreover have "addRecipientsFromGroup this g (a, ids, r, cs')
          = (a, ids,
             r\<lparr> errors := errors r @
                  [\<lparr> recipientGroup = Some g, e_user = None, e_name = None, message = e \<rparr>],
               numFailed := numFailed r + 1 \<rparr>,
             cs' @ [ResolveCall g])"
    using assms(3) by (simp add: addRecipientsFromGroup_def Let_def)
  ultimately show ?thesis using rep nf pos by blast
qed

theorem send_captures_group_resolution_failure_witness:
  "fst (send (exampleService
           [(''big'', Inl ''lookup failed''),
            (''teamA'', Inr [exampleUser ''1'' ''A''])] [] [])
        [1] [] [''big'', ''teamA''] ''Hi '' [])
     = Inr \<lparr> errors = [\<lparr> recipientGroup = Some ''big'', e_user = None, e_name = None,
                            message = ''lookup failed'' \<rparr>],
             numFailed = 1, numRecipients = 1,
             recipients = [\<lparr> r_user = ''1'', r_name = ''A'' \<rparr>] \<rparr>"
proof -
  let ?svc = "exampleService
           [(''big'', Inl ''lookup failed''),
            (''teamA'', Inr [exampleUser ''1'' ''A''])] [] []"
  let ?gs = "[''big'', ''teamA'']"
  have h1: "\<forall>h \<in> set ?gs. canResolve (recipientResolver ?svc) h"
    by (simp add: exampleService_def)
  have h2: "''big'' \<in> set ?gs" by simp
  have h3: "resolve (recipientResolver ?svc) ''big'' = Inl ''lookup failed''"
    by (simp add: exampleService_def)
  from send_captures_group_resolution_failure [OF h1 h2 h3, of "[1]" "[]" "''Hi ''" "[]"]
  obtain rep where rep: "fst (send ?svc [1] [] ?gs ''Hi '' []) = Inr rep"
    and "filter (\<lambda>x. recipientGroup x = Some ''big'') (errors rep)
          = replicate (count_list ?gs ''big'')
              \<lparr> recipientGroup = Some ''big'', e_user = None, e_name = None,
                 message = ''lookup failed'' \<rparr>"
    by blast
  moreover have "fst (send ?svc [1] [] ?gs ''Hi '' [])
     = Inr \<lparr> errors = [\<lparr> recipientGroup = Some ''big'', e_user = None, e_name = None,
                            message = ''lookup failed'' \<rparr>],
             numFailed = 1, numRecipients = 1,
             recipients = [\<lparr> r_user = ''1'', r_name = ''A'' \<rparr>] \<rparr>"
    by (simp add: run_defs)
  ultimately show ?thesis by simp
qed

text \<open>
  C5 as it is stated fails when the group is requested twice: a valid group whose
  resolution fails, requested twice, is resolved twice, has two entries in \<open>errors\<close>
  and adds two to \<open>numFailed\<close>.
\<close>

theorem send_captures_group_resolution_failure_counterexample:
  "canResolve (recipientResolver (exampleService [(''big'', Inl ''lookup failed'')] [] [])) ''big''
   \<and> resolve (recipientResolver (exampleService [(''big'', Inl ''lookup failed'')] [] [])) ''big''
       = Inl ''lookup failed''
   \<and> fst (send (exampleService [(''big'', Inl ''lookup failed'')] [] [])
          [] [] [''big'', ''big''] ''Hi '' [])
     = Inr \<lparr> errors = [\<lparr> recipientGroup = Some ''big'', e_user = None, e_name = None,
                            message = ''lookup failed'' \<rparr>,
                         \<lparr> recipientGroup = Some ''big'', e_user = None, e_name = None,
                            message = ''lookup failed'' \<rparr>],
             numFailed = 2, numRecipients = 0, recipients = [] \<rparr>
   \<and> length (filter (\<lambda>x. recipientGroup x = Some ''big'')
        (errors (projr (fst (send (exampleService [(''big'', Inl ''lookup failed'')] [] [])
          [] [] [''big'', ''big''] ''Hi '' []))))) = 2"
  by (simp add: run_defs)

section \<open>Deduplication\<close>

text \<open>
  C10. Let every requested group be valid and let the user \<open>u\<close> be among the users
  that the requested group \<open>g\<close> resolves to, once or several times. Then the recipient
  list that \<open>getRecipients\<close> returns holds exactly one user with the \<^verbatim>\<open>_id\<close> of \<open>u\<close>,
  and \<open>send\<close> calls the transport at most once for that \<^verbatim>\<open>_id\<close>. The task of the
  group alone, started on an empty list, yields a list with no \<^verbatim>\<open>_id\<close> twice that holds
  exactly one user with the \<^verbatim>\<open>_id\<close> of \<open>u\<close>.
\<close>

theorem send_deduplicates_within_group:
  assumes "\<forall>h \<in> set recipientGroups. canResolve (recipientResolver this) h"
    and "g \<in> set recipientGroups"
    and "resolve (recipientResolver this) g = Inr us"
    and "u \<in> set us"
  shows "length (filter (\<lambda>a. uid a = uid u) (fst (getRecipients this gsched recipientGroups (r, cs')))) = 1
      \<and> length (filter (sentTo (uid u)) (snd (send this gsched qsched recipientGroups t cs)))
          \<le> length (filter (sentTo (uid u)) cs) + 1
      \<and> distinct (map uid (fst (addRecipientsFromGroup this g ([], {}, r, cs'))))
      \<and> length (filter (\<lambda>a. uid a = uid u) (fst (addRecipientsFromGroup this g ([], {}, r, cs')))) = 1"
proof -
  have mem: "u \<in> set (resolvedUsers this recipientGroups)"
    using assms(2,3,4) by (rule resolved_member)
  have one: "length (filter (\<lambda>a. uid a = uid u) (fst (getRecipients this gsched recipientGroups (r, cs')))) = 1"
    using mem by (simp add: attempted_getRecipients attempted_count)
  have step: "fst (addRecipientsFromGroup this g ([], {}, r, cs')) = firstSeen {} us"
    using assms(3) by (simp add: addRecipientsFromGroup_eq groupUsers_def)
  have d: "distinct (map uid (firstSeen {} us))" by (rule firstSeen_distinct)
  then have "length (filter (\<lambda>a. uid a = uid u) (firstSeen {} us))
      = (if uid u \<in> uid ` set (firstSeen {} us) then 1 else 0)"
    by (rule length_filter_key)
  then have one': "length (filter (\<lambda>a. uid a = uid u) (firstSeen {} us)) = 1"
    using assms(4) by (simp add: firstSeen_ids)
  show ?thesis using one send_sentTo_le [OF assms(1)] d one' by (simp add: step)
qed

theorem send_deduplicates_within_group_witness:
  "fst (getRecipients (exampleService
           [(''teamA'', Inr [exampleUser ''1'' ''A'', exampleUser ''2'' ''B'',
                              exampleUser ''1'' ''A''])] [] [])
         [] [''teamA''] (\<lparr> errors = [], numFailed = 0, numRecipients = 0, recipients = [] \<rparr>, []))
     = [exampleUser ''1'' ''A'', exampleUser ''2'' ''B'']
   \<and> filter (sentTo ''1'') (snd (send (exampleService
           [(''teamA'', Inr [exampleUser ''1'' ''A'', exampleUser ''2'' ''B'',
                              exampleUser ''1'' ''A''])] [] [])
         [] [] [''teamA''] ''Hi '' []))
     = [SendMessageCall (exampleUser ''1'' ''A'') ''Hi A'']
   \<and> length (filter (sentTo ''1'') (snd (send (exampleService
           [(''teamA'', Inr [exampleUser ''1'' ''A'', exampleUser ''2'' ''B'',
                              exampleUser ''1'' ''A''])] [] [])
         [] [] [''teamA''] ''Hi '' []))) \<le> 1"
proof -
  let ?svc = "exampleService
           [(''teamA'', Inr [exampleUser ''1'' ''A'', exampleUser ''2'' ''B'',
                              exampleUser ''1'' ''A''])] [] []"
  let ?us = "[exampleUser ''1'' ''A'', exampleUser ''2'' ''B'', exampleUser ''1'' ''A'']"
  have h1: "\<forall>h \<in> set [''teamA'']. canResolve (recipientResolver ?svc) h"
    by (simp add: exampleService_def)
  have h2: "''teamA'' \<in> set [''teamA'']" by simp
  have h3: "resolve (recipientResolver ?svc) ''teamA'' = Inr ?us"
    by (simp add: exampleService_def)
  have h4: "exampleUser ''1'' ''A'' \<in> set ?us" by simp
  have i: "uid (exampleUser ''1'' ''A'') = ''1''" by (simp add: exampleUser_def)
  from send_deduplicates_within_group [OF h1 h2 h3 h4, of "[]" _ _ "[]" "''Hi ''" "[]"]
  have le: "length (filter (sentTo ''1'') (snd (send ?svc [] [] [''teamA''] ''Hi '' []))) \<le> 1"
    by (simp add: i)
  have "fst (getRecipients ?svc [] [''teamA'']
          (\<lparr> errors = [], numFailed = 0, numRecipients = 0, recipients = [] \<rparr>, []))
      = [exampleUser ''1'' ''A'', exampleUser ''2'' ''B'']"
    by (simp add: run_defs)
  moreover have "filter (sentTo ''1'') (snd (send ?svc [] [] [''teamA''] ''Hi '' []))
      = [SendMessageCall (exampleUser ''1'' ''A'') ''Hi A'']"
    by (simp add: run_defs)
  ultimately show ?thesis using le by simp
qed






lemma attempted_distinct_users: "distinct (attempted this gsched gs)"
  using attempted_distinct [of this gsched gs] by (simp add: distinct_map)

lemma attempted_inj: "inj_on uid (set (attempted this gsched gs))"
  using attempted_distinct [of this gsched gs] by (simp add: distinct_map)

section \<open>Isolation of a failure\<close>

text \<open>
  C2. Let every requested group be valid and resolve, to a recipient list of \<open>N\<close>
  users (distinct by \<^verbatim>\<open>_id\<close>) of which \<open>bad\<close> is one. Let context creation and
  rendering succeed for all of them, and let the transport fail with the message \<open>e\<close>
  for \<open>bad\<close> and succeed for the others. Then \<open>send\<close> returns a report with
  \<open>numRecipients = N - 1\<close> and \<open>numFailed = 1\<close>; its \<open>errors\<close> is the one entry with the
  message \<open>e\<close> and the \<^verbatim>\<open>_id\<close> and name of \<open>bad\<close>; no entry of \<open>recipients\<close> has the
  \<^verbatim>\<open>_id\<close> of \<open>bad\<close>; \<open>recipients\<close> has the entries of all the other users, in the
  order in which their sends complete; and the transport is called exactly once for
  every one of the \<open>N\<close> users, so that no send is aborted or skipped.
\<close>

theorem send_isolates_single_transport_failure:
  assumes "\<forall>g \<in> set recipientGroups. canResolve (recipientResolver this) g"
    and "\<forall>g \<in> set recipientGroups. \<not> resolveFails this g"
    and "bad \<in> set (attempted this gsched recipientGroups)"
    and "\<forall>u \<in> set (attempted this gsched recipientGroups).
           \<exists>c m. createContextFromUser (contextFactory this) u = Inr c
             \<and> resolveTemplate (templateResolver this) c t = Inr m
             \<and> sendMessage (transport this) u m = (if u = bad then Inl e else Inr ())"
  shows "\<exists>rep. fst (send this gsched qsched recipientGroups t cs) = Inr rep
      \<and> numRecipients rep = length (attempted this gsched recipientGroups) - 1
      \<and> 0 < length (attempted this gsched recipientGroups)
      \<and> length (attempted this gsched recipientGroups)
          = card (uid ` set (resolvedUsers this recipientGroups))
      \<and> numFailed rep = 1
      \<and> errors rep = [\<lparr> recipientGroup = None, e_user = Some (uid bad),
                          e_name = Some (name bad), message = e \<rparr>]
      \<and> (\<forall>x \<in> set (recipients rep). r_user x \<noteq> uid bad)
      \<and> recipients rep = map recipientEntry
          (filter (\<lambda>u. u \<noteq> bad) (completionOrder qsched (attempted this gsched recipientGroups)))
      \<and> (\<forall>u \<in> set (attempted this gsched recipientGroups).
            length (filter (sentTo (uid u)) (snd (send this gsched qsched recipientGroups t cs)))
              = length (filter (sentTo (uid u)) cs) + 1)"
proof -
  let ?att = "attempted this gsched recipientGroups"
  let ?so = "completionOrder qsched ?att"
  let ?fail = "\<lambda>u. isl (sendOutcome this t u)"
  have out: "sendOutcome this t u = (if u = bad then Inl e else Inr ())" if "u \<in> set ?att" for u
  proof -
    from assms(4) that obtain c m where
      "createContextFromUser (contextFactory this) u = Inr c"
      "resolveTemplate (templateResolver this) c t = Inr m"
      "sendMessage (transport this) u m = (if u = bad then Inl e else Inr ())"
      by blast
    then show ?thesis by (simp add: sendOutcome_def)
  qed
  have ren: "rendersFor this t u" if "u \<in> set ?att" for u
  proof -
    from assms(4) that obtain c m where
      "createContextFromUser (contextFactory this) u = Inr c"
      "resolveTemplate (templateResolver this) c t = Inr m"
      by blast
    then show ?thesis by (simp add: rendersFor_def)
  qed
  have fail_iff: "?fail u = (u = bad)" if "u \<in> set ?att" for u
    using out [OF that] by simp
  have f_att: "filter ?fail ?att = [bad]"
  proof -
    have "filter ?fail ?att = filter (\<lambda>u. u = bad) ?att"
      using fail_iff by (intro filter_cong) auto
    also have "\<dots> = [bad]"
      using attempted_distinct_users assms(3) by (rule filter_eq_singleton)
    finally show ?thesis .
  qed
  have f_so: "filter ?fail ?so = [bad]"
  proof -
    have "filter ?fail ?so = filter (\<lambda>u. u = bad) ?so"
      using fail_iff by (intro filter_cong) (auto simp: set_completionOrder)
    also have "\<dots> = [bad]"
    proof (rule filter_eq_singleton)
      show "distinct ?so" by (simp add: distinct_completionOrder attempted_distinct_users)
      show "bad \<in> set ?so" using assms(3) by (simp add: set_completionOrder)
    qed
    finally show ?thesis .
  qed
  have ok_so: "filter (\<lambda>u. \<not> ?fail u) ?so = filter (\<lambda>u. u \<noteq> bad) ?so"
    using fail_iff by (intro filter_cong) (auto simp: set_completionOrder)
  have nogroup: "filter (resolveFails this) (completionOrder gsched recipientGroups) = []"
    using assms(2) by (simp add: filter_empty_conv set_completionOrder)
  have nogroup': "filter (resolveFails this) recipientGroups = []"
    using assms(2) by (simp add: filter_empty_conv)
  from send_report [OF assms(1), of gsched qsched t cs]
  obtain rep where rep: "fst (send this gsched qsched recipientGroups t cs) = Inr rep"
    and r: "recipients rep = map recipientEntry (filter (\<lambda>u. \<not> ?fail u) ?so)"
    and er: "errors rep =
         map (\<lambda>g. groupError g (projl (resolve (recipientResolver this) g)))
           (filter (resolveFails this) (completionOrder gsched recipientGroups))
         @ map (\<lambda>u. recipientError u (projl (sendOutcome this t u))) (filter ?fail ?so)"
    and nr: "numRecipients rep = length (filter (\<lambda>u. \<not> ?fail u) ?att)"
    and nf: "numFailed rep = length (filter (resolveFails this) recipientGroups)
         + length (filter ?fail ?att)"
    by blast
  have c_nf: "numFailed rep = 1" by (simp add: nf nogroup' f_att)
  have "length (filter ?fail ?att) + length (filter (\<lambda>u. \<not> ?fail u) ?att) = length ?att"
    by (rule sum_length_filter_compl)
  then have c_nr: "numRecipients rep = length ?att - 1" by (simp add: nr f_att)
  have c_pos: "0 < length ?att" using assms(3) by (cases ?att) auto
  have c_err: "errors rep = [\<lparr> recipientGroup = None, e_user = Some (uid bad),
                          e_name = Some (name bad), message = e \<rparr>]"
    using out [OF assms(3)] by (simp add: er nogroup f_so recipientError_def)
  have c_rec: "recipients rep = map recipientEntry (filter (\<lambda>u. u \<noteq> bad) ?so)"
    by (simp add: r ok_so)
  have c_not: "r_user x \<noteq> uid bad" if "x \<in> set (recipients rep)" for x
  proof -
    from that c_rec obtain a where a: "a \<in> set ?att" "a \<noteq> bad" "x = recipientEntry a"
      by (auto simp: set_completionOrder)
    have "uid a \<noteq> uid bad"
      using a(1,2) assms(3) attempted_inj [of this gsched recipientGroups]
      by (auto dest: inj_onD)
    with a(3) show ?thesis by (simp add: recipientEntry_def)
  qed
  have c_sent: "length (filter (sentTo (uid u)) (snd (send this gsched qsched recipientGroups t cs)))
              = length (filter (sentTo (uid u)) cs) + 1" if "u \<in> set ?att" for u
  proof -
    have "filter (\<lambda>a. uid a = uid u \<and> rendersFor this t a) ?att = filter (\<lambda>a. uid a = uid u) ?att"
      using ren by (intro filter_cong) auto
    moreover have "length (filter (\<lambda>a. uid a = uid u) ?att) = 1"
      using that attempted_subset [of this gsched recipientGroups] by (auto simp: attempted_count)
    ultimately show ?thesis by (simp add: send_sentTo [OF assms(1)])
  qed
  have c_len: "length ?att = card (uid ` set (resolvedUsers this recipientGroups))"
    by (rule attempted_length)
  have c_not': "\<forall>x \<in> set (recipients rep). r_user x \<noteq> uid bad" using c_not by blast
  have c_sent': "\<forall>u \<in> set ?att.
            length (filter (sentTo (uid u)) (snd (send this gsched qsched recipientGroups t cs)))
              = length (filter (sentTo (uid u)) cs) + 1" using c_sent by blast
  from rep c_nr c_pos c_len c_nf c_err c_not' c_rec c_sent' show ?thesis by blast
qed

theorem send_isolates_single_transport_failure_witness:
  "fst (send (exampleService
           [(''teamA'', Inr [exampleUser ''1'' ''A'', exampleUser ''2'' ''B'',
                              exampleUser ''3'' ''C''])] [] [''2''])
        [] [2] [''teamA''] ''Hi '' [])
     = Inr \<lparr> errors = [\<lparr> recipientGroup = None, e_user = Some ''2'', e_name = Some ''B'',
                            message = ''transport failed'' \<rparr>],
             numFailed = 1, numRecipients = 2,
             recipients = [\<lparr> r_user = ''3'', r_name = ''C'' \<rparr>,
                           \<lparr> r_user = ''1'', r_name = ''A'' \<rparr>] \<rparr>
   \<and> filter isSendMessageCall (snd (send (exampleService
           [(''teamA'', Inr [exampleUser ''1'' ''A'', exampleUser ''2'' ''B'',
                              exampleUser ''3'' ''C''])] [] [''2''])
        [] [2] [''teamA''] ''Hi '' []))
     = [SendMessageCall (exampleUser ''3'' ''C'') ''Hi C'',
        SendMessageCall (exampleUser ''1'' ''A'') ''Hi A'',
        SendMessageCall (exampleUser ''2'' ''B'') ''Hi B'']"
proof -
  let ?svc = "exampleService
           [(''teamA'', Inr [exampleUser ''1'' ''A'', exampleUser ''2'' ''B'',
                              exampleUser ''3'' ''C''])] [] [''2'']"
  let ?gs = "[''teamA'']"
  let ?bad = "exampleUser ''2'' ''B''"
  have att: "attempted ?svc [] ?gs = [exampleUser ''1'' ''A'', ?bad, exampleUser ''3'' ''C'']"
    by (simp add: attempted_def resolvedUsers_def groupUsers_def exampleService_def exampleUser_def)
  have h1: "\<forall>g \<in> set ?gs. canResolve (recipientResolver ?svc) g"
    by (simp add: exampleService_def)
  have h2: "\<forall>g \<in> set ?gs. \<not> resolveFails ?svc g"
    by (simp add: resolveFails_def exampleService_def)
  have h3: "?bad \<in> set (attempted ?svc [] ?gs)" by (simp add: att)
  have h4: "\<forall>u \<in> set (attempted ?svc [] ?gs).
           \<exists>c m. createContextFromUser (contextFactory ?svc) u = Inr c
             \<and> resolveTemplate (templateResolver ?svc) c ''Hi '' = Inr m
             \<and> sendMessage (transport ?svc) u m
                 = (if u = ?bad then Inl ''transport failed'' else Inr ())"
    by (simp add: att) (simp add: exampleService_def exampleUser_def)
  from send_isolates_single_transport_failure [OF h1 h2 h3 h4, of "[2]" "[]"]
  obtain rep where rep: "fst (send ?svc [] [2] ?gs ''Hi '' []) = Inr rep"
    and "numFailed rep = 1"
    and "errors rep = [\<lparr> recipientGroup = None, e_user = Some (uid ?bad),
                          e_name = Some (name ?bad), message = ''transport failed'' \<rparr>]"
    by blast
  moreover have "fst (send ?svc [] [2] ?gs ''Hi '' [])
     = Inr \<lparr> errors = [\<lparr> recipientGroup = None, e_user = Some ''2'', e_name = Some ''B'',
                            message = ''transport failed'' \<rparr>],
             numFailed = 1, numRecipients = 2,
             recipients = [\<lparr> r_user = ''3'', r_name = ''C'' \<rparr>,
                           \<lparr> r_user = ''1'', r_name = ''A'' \<rparr>] \<rparr>"
    by (simp add: run_defs)
  moreover have "filter isSendMessageCall (snd (send ?svc [] [2] ?gs ''Hi '' []))
     = [SendMessageCall (exampleUser ''3'' ''C'') ''Hi C'',
        SendMessageCall (exampleUser ''1'' ''A'') ''Hi A'',
        SendMessageCall ?bad ''Hi B'']"
    by (simp add: run_defs)
  ultimately show ?thesis by simp
qed

lemma completionOrder_single: "completionOrder sched [x] = [x]"
  by (cases sched) simp_all

lemma completionOrder_pair:
  "completionOrder sched [a, b] = (if sched = [] \<or> even (hd sched) then [a, b] else [b, a])"
proof (cases sched)
  case Nil
  then show ?thesis by simp
next
  case (Cons k ks)
  show ?thesis
  proof (cases "even k")
    case True
    then have "k mod length [a, b] = 0" by simp presburger
    then have "completionOrder (k # ks) [a, b] = [a, b]"
      by (simp add: completionOrder_single Let_def del: length_Cons)
    with True Cons show ?thesis by simp
  next
    case False
    then have "k mod length [a, b] = 1" by simp presburger
    then have "completionOrder (k # ks) [a, b] = [b, a]"
      by (simp add: completionOrder_single Let_def del: length_Cons)
    with False Cons show ?thesis by simp
  qed
qed

lemma sendOutcome_success:
  assumes "rendersFor this t u" and "\<forall>v m. sendMessage (transport this) v m = Inr ()"
  shows "sendOutcome this t u = Inr ()"
  using assms by (auto simp: rendersFor_def sendOutcome_def split: sum.splits)

section \<open>The example of the specification\<close>

text \<open>
  C6, as the code has it. Let the group \<^verbatim>\<open>teamA\<close> be valid and resolve to two users,
  the first with \<^verbatim>\<open>_id\<close> 1 and name A, the second with \<^verbatim>\<open>_id\<close> 2 and name B; let
  context creation and the rendering of the template \<^verbatim>\<open>Hi {{name}}\<close> succeed for both,
  and let the transport always succeed. Then \<open>send\<close> returns the report with
  \<open>numRecipients = 2\<close>, \<open>numFailed = 0\<close>, no errors, and the two entries in
  \<open>recipients\<close> in the order in which the two sends complete: the entry of 1 before
  that of 2 when the send to 1 completes first (the schedule is empty or starts with an
  even number), the entry of 2 before that of 1 otherwise.
\<close>

theorem send_example_teamA:
  assumes "canResolve (recipientResolver this) ''teamA''"
    and "resolve (recipientResolver this) ''teamA'' = Inr [u1, u2]"
    and "uid u1 = ''1''" and "name u1 = ''A''"
    and "uid u2 = ''2''" and "name u2 = ''B''"
    and "rendersFor this ''Hi {{name}}'' u1" and "rendersFor this ''Hi {{name}}'' u2"
    and "\<forall>v m. sendMessage (transport this) v m = Inr ()"
  shows "fst (send this gsched qsched [''teamA''] ''Hi {{name}}'' cs)
     = Inr \<lparr> errors = [], numFailed = 0, numRecipients = 2,
             recipients =
               (if qsched = [] \<or> even (hd qsched)
                then [\<lparr> r_user = ''1'', r_name = ''A'' \<rparr>, \<lparr> r_user = ''2'', r_name = ''B'' \<rparr>]
                else [\<lparr> r_user = ''2'', r_name = ''B'' \<rparr>, \<lparr> r_user = ''1'', r_name = ''A'' \<rparr>]) \<rparr>"
proof -
  let ?t = "''Hi {{name}}''"
  have v: "\<forall>g \<in> set [''teamA'']. canResolve (recipientResolver this) g"
    using assms(1) by simp
  have att: "attempted this gsched [''teamA''] = [u1, u2]"
    using assms(2,3,5)
    by (simp add: attempted_def completionOrder_single resolvedUsers_def groupUsers_def)
  have o1: "sendOutcome this ?t u1 = Inr ()" using assms(7,9) by (rule sendOutcome_success)
  have o2: "sendOutcome this ?t u2 = Inr ()" using assms(8,9) by (rule sendOutcome_success)
  have nofail: "\<not> resolveFails this ''teamA''" using assms(2) by (simp add: resolveFails_def)
  from send_report [OF v, of gsched qsched ?t cs]
  obtain rep where rep: "fst (send this gsched qsched [''teamA''] ?t cs) = Inr rep"
    and r: "recipients rep = map recipientEntry
         (filter (\<lambda>u. \<not> isl (sendOutcome this ?t u)) (completionOrder qsched (attempted this gsched [''teamA''])))"
    and er: "errors rep =
         map (\<lambda>g. groupError g (projl (resolve (recipientResolver this) g)))
           (filter (resolveFails this) (completionOrder gsched [''teamA'']))
         @ map (\<lambda>u. recipientError u (projl (sendOutcome this ?t u)))
             (filter (\<lambda>u. isl (sendOutcome this ?t u)) (completionOrder qsched (attempted this gsched [''teamA''])))"
    and nr: "numRecipients rep
         = length (filter (\<lambda>u. \<not> isl (sendOutcome this ?t u)) (attempted this gsched [''teamA'']))"
    and nf: "numFailed rep = length (filter (resolveFails this) [''teamA''])
         + length (filter (\<lambda>u. isl (sendOutcome this ?t u)) (attempted this gsched [''teamA'']))"
    by blast
  have c1: "errors rep = []"
    using nofail o1 o2 by (simp add: er att completionOrder_single completionOrder_pair)
  have c2: "numFailed rep = 0" using nofail o1 o2 by (simp add: nf att)
  have c3: "numRecipients rep = 2" using o1 o2 by (simp add: nr att)
  have c4: "recipients rep =
               (if qsched = [] \<or> even (hd qsched)
                then [\<lparr> r_user = ''1'', r_name = ''A'' \<rparr>, \<lparr> r_user = ''2'', r_name = ''B'' \<rparr>]
                else [\<lparr> r_user = ''2'', r_name = ''B'' \<rparr>, \<lparr> r_user = ''1'', r_name = ''A'' \<rparr>])"
    using o1 o2 assms(3,4,5,6) by (simp add: r att completionOrder_pair recipientEntry_def)
  from c1 c2 c3 c4 have "rep = \<lparr> errors = [], numFailed = 0, numRecipients = 2,
             recipients =
               (if qsched = [] \<or> even (hd qsched)
                then [\<lparr> r_user = ''1'', r_name = ''A'' \<rparr>, \<lparr> r_user = ''2'', r_name = ''B'' \<rparr>]
                else [\<lparr> r_user = ''2'', r_name = ''B'' \<rparr>, \<lparr> r_user = ''1'', r_name = ''A'' \<rparr>]) \<rparr>"
    by (cases rep) simp
  with rep show ?thesis by simp
qed

theorem send_example_teamA_witness:
  "fst (send (exampleService
           [(''teamA'', Inr [exampleUser ''1'' ''A'', exampleUser ''2'' ''B''])] [] [])
        [] [] [''teamA''] ''Hi {{name}}'' [])
     = Inr \<lparr> errors = [], numFailed = 0, numRecipients = 2,
             recipients = [\<lparr> r_user = ''1'', r_name = ''A'' \<rparr>,
                           \<lparr> r_user = ''2'', r_name = ''B'' \<rparr>] \<rparr>"
proof -
  let ?svc = "exampleService
           [(''teamA'', Inr [exampleUser ''1'' ''A'', exampleUser ''2'' ''B''])] [] []"
  have h1: "canResolve (recipientResolver ?svc) ''teamA''" by (simp add: exampleService_def)
  have h2: "resolve (recipientResolver ?svc) ''teamA''
      = Inr [exampleUser ''1'' ''A'', exampleUser ''2'' ''B'']"
    by (simp add: exampleService_def)
  have h3: "uid (exampleUser ''1'' ''A'') = ''1''" and h4: "name (exampleUser ''1'' ''A'') = ''A''"
    and h5: "uid (exampleUser ''2'' ''B'') = ''2''" and h6: "name (exampleUser ''2'' ''B'') = ''B''"
    by (simp_all add: exampleUser_def)
  have h7: "rendersFor ?svc ''Hi {{name}}'' (exampleUser ''1'' ''A'')"
    and h8: "rendersFor ?svc ''Hi {{name}}'' (exampleUser ''2'' ''B'')"
    by (simp_all add: rendersFor_def exampleService_def)
  have h9: "\<forall>v m. sendMessage (transport ?svc) v m = Inr ()" by (simp add: exampleService_def)
  from send_example_teamA [OF h1 h2 h3 h4 h5 h6 h7 h8 h9, of "[]" "[]" "[]"]
  show ?thesis by simp
qed

text \<open>
  C6 as it is stated fails when the send to the second user completes before the send
  to the first: the two entries of \<open>recipients\<close> are then in the other order.
\<close>

theorem send_example_teamA_counterexample:
  "resolve (recipientResolver (exampleService
           [(''teamA'', Inr [exampleUser ''1'' ''A'', exampleUser ''2'' ''B''])] [] []))
      ''teamA'' = Inr [exampleUser ''1'' ''A'', exampleUser ''2'' ''B'']
   \<and> fst (send (exampleService
           [(''teamA'', Inr [exampleUser ''1'' ''A'', exampleUser ''2'' ''B''])] [] [])
        [] [1] [''teamA''] ''Hi {{name}}'' [])
     = Inr \<lparr> errors = [], numFailed = 0, numRecipients = 2,
             recipients = [\<lparr> r_user = ''2'', r_name = ''B'' \<rparr>,
                           \<lparr> r_user = ''1'', r_name = ''A'' \<rparr>] \<rparr>
   \<and> fst (send (exampleService
           [(''teamA'', Inr [exampleUser ''1'' ''A'', exampleUser ''2'' ''B''])] [] [])
        [] [1] [''teamA''] ''Hi {{name}}'' [])
     \<noteq> Inr \<lparr> errors = [], numFailed = 0, numRecipients = 2,
             recipients = [\<lparr> r_user = ''1'', r_name = ''A'' \<rparr>,
                           \<lparr> r_user = ''2'', r_name = ''B'' \<rparr>] \<rparr>"
  by (simp add: run_defs)

end
